theory Spec2Isabelle
  imports Complex_Main
begin

section \<open>Strings of the widget\<close>

text \<open>
  The component \<^verbatim>\<open>src/components/NumericInput.vue\<close> works on JavaScript strings, which are
  sequences of UTF-16 code units. A code unit is modelled as a natural number; every real
  string has its code units below 65536, and no function below depends on that bound.
  \<open>js\<close> writes a literal.
\<close>

type_synonym code_unit = nat
type_synonym js_string = "code_unit list"

definition js :: "string \<Rightarrow> js_string" where
  "js s = map of_char s"

abbreviation SPACE :: code_unit where "SPACE \<equiv> 32"
abbreviation COMMA :: code_unit where "COMMA \<equiv> 44"
abbreviation DOT :: code_unit where "DOT \<equiv> 46"

text \<open>The regular expression classes \<^verbatim>\<open>\d\<close>, \<^verbatim>\<open>\w\<close> and \<^verbatim>\<open>\s\<close> (no \<^verbatim>\<open>u\<close> or \<^verbatim>\<open>i\<close> flag).\<close>

definition is_digit :: "code_unit \<Rightarrow> bool" where
  "is_digit c = (48 \<le> c \<and> c \<le> 57)"

definition is_word :: "code_unit \<Rightarrow> bool" where
  "is_word c = (is_digit c \<or> (65 \<le> c \<and> c \<le> 90) \<or> c = 95 \<or> (97 \<le> c \<and> c \<le> 122))"

definition is_space :: "code_unit \<Rightarrow> bool" where
  "is_space c = ((9 \<le> c \<and> c \<le> 13) \<or> c = 32 \<or> c = 160 \<or> c = 5760 \<or> (8192 \<le> c \<and> c \<le> 8202)
     \<or> c = 8232 \<or> c = 8233 \<or> c = 8239 \<or> c = 8287 \<or> c = 12288 \<or> c = 65279)"

text \<open>\<^verbatim>\<open>s.indexOf('.')\<close>: the index of the first occurrence, \<open>None\<close> for \<^verbatim>\<open>-1\<close>.\<close>

fun indexOf :: "js_string \<Rightarrow> code_unit \<Rightarrow> nat option" where
  "indexOf [] x = None"
| "indexOf (c # cs) x = (if c = x then Some 0 else map_option Suc (indexOf cs x))"

section \<open>Numbers\<close>

text \<open>
  A JavaScript number is a double. A finite double is represented by its exact rational value;
  the two zeros are identified, since the functions modelled here apply to numbers only
  \<^verbatim>\<open>>\<close>, \<^verbatim>\<open>Number.isFinite\<close> and \<^verbatim>\<open>slice\<close>, none of which tells them apart.
\<close>

datatype number = Finite rat | PosInfinity | NegInfinity | NaN

fun isFinite :: "number \<Rightarrow> bool" where
  "isFinite (Finite r) = True"
| "isFinite PosInfinity = False"
| "isFinite NegInfinity = False"
| "isFinite NaN = False"

text \<open>\<^verbatim>\<open>a > b\<close> on numbers: false as soon as one side is \<^verbatim>\<open>NaN\<close>.\<close>

fun js_gt :: "number \<Rightarrow> number \<Rightarrow> bool" where
  "js_gt (Finite a) (Finite b) = (b < a)"
| "js_gt (Finite a) NegInfinity = True"
| "js_gt (Finite a) PosInfinity = False"
| "js_gt PosInfinity (Finite b) = True"
| "js_gt PosInfinity NegInfinity = True"
| "js_gt PosInfinity PosInfinity = False"
| "js_gt NegInfinity b = False"
| "js_gt NaN b = False"
| "js_gt a NaN = False"

fun negate :: "number \<Rightarrow> number" where
  "negate (Finite r) = Finite (- r)"
| "negate PosInfinity = NegInfinity"
| "negate NegInfinity = PosInfinity"
| "negate NaN = NaN"

subsection \<open>Rounding a mathematical value to a double\<close>

text \<open>
  The Number value for a non-negative rational: round to nearest, ties to even, with 53
  significant bits, the least exponent \<open>-1074\<close> (subnormals), and overflow to infinity from
  \<open>2 ^ 1024\<close> on.
\<close>

fun bit_length :: "nat \<Rightarrow> nat" where
  "bit_length n = (if n = 0 then 0 else Suc (bit_length (n div 2)))"

declare bit_length.simps [simp del]

text \<open>The exponent \<open>e\<close> with \<open>2 powi e \<le> q < 2 powi (e + 1)\<close>, for \<open>q > 0\<close>.\<close>

definition floor_log2 :: "rat \<Rightarrow> int" where
  "floor_log2 q =
     (if 1 \<le> q then int (bit_length (nat \<lfloor>q\<rfloor>)) - 1
      else - int (bit_length (nat (\<lceil>1 / q\<rceil> - 1))))"

definition round_half_even :: "rat \<Rightarrow> int" where
  "round_half_even x =
     (let f = \<lfloor>x\<rfloor>; d = x - of_int f
      in if d < 1 / 2 then f else if 1 / 2 < d then f + 1 else if even f then f else f + 1)"

definition round64 :: "rat \<Rightarrow> number" where
  "round64 q =
     (if q = 0 then Finite 0
      else let e = floor_log2 q;
               p = max (e - 52) (- 1074);
               m = round_half_even (q / 2 powi p);
               v = of_int m * 2 powi p
           in if 2 ^ 1024 \<le> v then PosInfinity else Finite v)"

subsection \<open>\<^verbatim>\<open>Number(string)\<close>\<close>

text \<open>
  The conversion of ECMAScript (StringToNumber): surrounding white space is dropped, the empty
  string is \<open>0\<close>, then come the unsigned literals \<^verbatim>\<open>0x\<close>, \<^verbatim>\<open>0o\<close>, \<^verbatim>\<open>0b\<close>, and the decimal
  literals with an optional sign: \<^verbatim>\<open>Infinity\<close>, or digits with an optional fraction and an
  optional exponent. Everything else is \<^verbatim>\<open>NaN\<close>.
\<close>

definition trim :: "js_string \<Rightarrow> js_string" where
  "trim s = rev (dropWhile is_space (rev (dropWhile is_space s)))"

definition digit_value :: "code_unit \<Rightarrow> nat" where
  "digit_value c =
     (if is_digit c then c - 48 else if 97 \<le> c \<and> c \<le> 102 then c - 87 else c - 55)"

definition digits_value :: "nat \<Rightarrow> js_string \<Rightarrow> nat" where
  "digits_value base ds = foldl (\<lambda>a c. base * a + digit_value c) 0 ds"

definition is_hex_digit :: "code_unit \<Rightarrow> bool" where
  "is_hex_digit c = (is_digit c \<or> (65 \<le> c \<and> c \<le> 70) \<or> (97 \<le> c \<and> c \<le> 102))"

definition is_octal_digit :: "code_unit \<Rightarrow> bool" where
  "is_octal_digit c = (48 \<le> c \<and> c \<le> 55)"

definition is_binary_digit :: "code_unit \<Rightarrow> bool" where
  "is_binary_digit c = (c = 48 \<or> c = 49)"

definition non_decimal_literal :: "js_string \<Rightarrow> nat option" where
  "non_decimal_literal s =
     (case s of
        a # b # ds \<Rightarrow>
          if a = 48 \<and> ds \<noteq> [] then
            if (b = 120 \<or> b = 88) \<and> list_all is_hex_digit ds then Some (digits_value 16 ds)
            else if (b = 111 \<or> b = 79) \<and> list_all is_octal_digit ds then Some (digits_value 8 ds)
            else if (b = 98 \<or> b = 66) \<and> list_all is_binary_digit ds then Some (digits_value 2 ds)
            else None
          else None
      | _ \<Rightarrow> None)"

definition signed_digits :: "js_string \<Rightarrow> int option" where
  "signed_digits s =
     (let (neg, ds) = (case s of
                         [] \<Rightarrow> (False, [])
                       | c # r \<Rightarrow> if c = 43 then (False, r) else if c = 45 then (True, r)
                                  else (False, s))
      in if ds \<noteq> [] \<and> list_all is_digit ds
         then Some (if neg then - int (digits_value 10 ds) else int (digits_value 10 ds))
         else None)"

definition exponent_part :: "js_string \<Rightarrow> int option" where
  "exponent_part s =
     (case s of
        [] \<Rightarrow> Some 0
      | c # r \<Rightarrow> if c = 101 \<or> c = 69 then signed_digits r else None)"

definition unsigned_decimal :: "js_string \<Rightarrow> rat option" where
  "unsigned_decimal s =
     (let ip = takeWhile is_digit s;
          r1 = dropWhile is_digit s;
          has_dot = (r1 \<noteq> [] \<and> hd r1 = DOT);
          fp = (if has_dot then takeWhile is_digit (tl r1) else []);
          r2 = (if has_dot then dropWhile is_digit (tl r1) else r1)
      in if ip = [] \<and> fp = [] then None
         else case exponent_part r2 of
                None \<Rightarrow> None
              | Some e \<Rightarrow>
                  Some ((of_nat (digits_value 10 ip)
                          + of_nat (digits_value 10 fp) / 10 ^ length fp) * 10 powi e))"

definition Number :: "js_string \<Rightarrow> number" where
  "Number s =
     (let t = trim s
      in if t = [] then Finite 0
         else case non_decimal_literal t of
                Some n \<Rightarrow> round64 (of_nat n)
              | None \<Rightarrow>
                  (let neg = (hd t = 45)
                   in let u = (if hd t = 43 \<or> hd t = 45 then tl t else t)
                   in if u = js ''Infinity'' then (if neg then NegInfinity else PosInfinity)
                      else case unsigned_decimal u of
                             None \<Rightarrow> NaN
                           | Some q \<Rightarrow> if neg then negate (round64 q) else round64 q))"

section \<open>The component\<close>

subsection \<open>Props and state\<close>

datatype InputType = Integer | Decimal

datatype LimitType = LimitNone | LimitMax | LimitMaxLength

text \<open>
  The props the functions below read. An optional prop that is absent (\<^verbatim>\<open>undefined\<close>) is
  \<open>None\<close>; \<^verbatim>\<open>type\<close> and \<^verbatim>\<open>maxDecimals\<close> have defaults. The prop \<^verbatim>\<open>max\<close> is named
  \<open>max_prop\<close> here, \<^verbatim>\<open>type\<close> is \<open>input_type\<close>.
\<close>

record props =
  input_type :: InputType
  disabled :: bool
  max_prop :: "number option"
  maxLength :: "number option"
  maxDecimals :: number

definition default_props :: props where
  "default_props =
     \<lparr>input_type = Decimal, disabled = False, max_prop = None, maxLength = None,
      maxDecimals = Finite 2\<rparr>"

definition limitType :: "props \<Rightarrow> LimitType" where
  "limitType p =
     (if max_prop p \<noteq> None then LimitMax
      else if maxLength p \<noteq> None then LimitMaxLength
      else LimitNone)"

datatype emit = UpdateModelValue "number option" | Focus | Blur

text \<open>
  The reactive state (\<^verbatim>\<open>displayValue\<close>, \<^verbatim>\<open>isFocused\<close>, \<^verbatim>\<open>hasError\<close>); the input element as
  the handlers read and write it (\<^verbatim>\<open>input.value\<close>; \<^verbatim>\<open>input.selectionStart\<close>, which is \<open>None\<close>
  for \<^verbatim>\<open>null\<close>; whether \<^verbatim>\<open>inputRef\<close> holds the element); and what the component has done so
  far: the events emitted, the callbacks handed to \<^verbatim>\<open>nextTick\<close> (each is the closure of
  \<^verbatim>\<open>onInput\<close>, given by the \<^verbatim>\<open>oldFormatted\<close> and \<^verbatim>\<open>cursorPos\<close> it captured), and the
  arguments of the calls of \<^verbatim>\<open>setSelectionRange\<close>. The width measurement
  (\<^verbatim>\<open>scheduleWidthUpdate\<close>) only changes the layout and is left out.
\<close>

record state =
  displayValue :: js_string
  isFocused :: bool
  hasError :: bool
  input_value :: js_string
  selectionStart :: "nat option"
  inputRef :: bool
  emitted :: "emit list"
  ticks :: "(js_string \<times> nat) list"
  selectionRanges :: "nat list"

subsection \<open>Formatting\<close>

text \<open>
  \<^verbatim>\<open>str.replace(/\B(?=(\d{3})+(?!\d))/g, ' ')\<close>: a space is inserted at every position that
  is not a word boundary and from which the run of digits up to the next non-digit has a
  length that is a positive multiple of three. The look-ahead needs a digit at the position,
  so the position is not a word boundary exactly when the character before it is a word
  character.
\<close>

definition lookahead :: "js_string \<Rightarrow> bool" where
  "lookahead s = (let n = length (takeWhile is_digit s) in 0 < n \<and> n mod 3 = 0)"

fun insert_spaces :: "bool \<Rightarrow> js_string \<Rightarrow> js_string" where
  "insert_spaces prev [] = []"
| "insert_spaces prev (c # cs) =
     (if prev \<and> lookahead (c # cs) then [SPACE] else []) @ c # insert_spaces (is_word c) cs"

definition formatWithSpaces :: "js_string \<Rightarrow> js_string" where
  "formatWithSpaces str = insert_spaces False str"

definition formatFromCleaned :: "js_string \<Rightarrow> js_string" where
  "formatFromCleaned cl =
     (if cl = [] then []
      else case indexOf cl DOT of
             None \<Rightarrow> formatWithSpaces cl
           | Some dotIndex \<Rightarrow>
               formatWithSpaces (take dotIndex cl) @ [DOT] @ drop (dotIndex + 1) cl)"

text \<open>\<^verbatim>\<open>s.replace(/\s/g, '').replace(/,/g, '.')\<close>, then the parse.\<close>

definition parseDisplay :: "js_string \<Rightarrow> number option" where
  "parseDisplay s =
     (let v = map (\<lambda>c. if c = COMMA then DOT else c) (filter (\<lambda>c. \<not> is_space c) s)
      in if v = [] \<or> v = [DOT] then None
         else let n = Number v in if isFinite n then Some n else None)"

subsection \<open>Sanitizing\<close>

text \<open>
  \<^verbatim>\<open>s.slice(0, e)\<close> for a number \<open>e\<close>: the end index is truncated towards zero, \<^verbatim>\<open>NaN\<close> counts
  as \<open>0\<close>, a negative end counts from the end of the string, and the result is clamped to the
  string.
\<close>

definition slice_to :: "js_string \<Rightarrow> number \<Rightarrow> js_string" where
  "slice_to s e =
     (case e of
        NaN \<Rightarrow> []
      | PosInfinity \<Rightarrow> s
      | NegInfinity \<Rightarrow> []
      | Finite r \<Rightarrow>
          (let k = (if 0 \<le> r then \<lfloor>r\<rfloor> else \<lceil>r\<rceil>)
           in if k < 0 then take (nat (int (length s) + k)) s else take (nat k) s))"

text \<open>
  The result of \<^verbatim>\<open>sanitize\<close>. Where the source names a local variable \<^verbatim>\<open>cleaned\<close> or
  \<^verbatim>\<open>numericValue\<close>, the model writes \<open>cl\<close> and \<open>nv\<close>. \<open>normalized\<close> is the first line of
  \<^verbatim>\<open>sanitize\<close>, \<open>clean\<close> its part that computes the final \<^verbatim>\<open>cleaned\<close>.
\<close>

record sanitized =
  cleaned :: js_string
  numericValue :: "number option"

definition normalized :: "js_string \<Rightarrow> js_string" where
  "normalized raw =
     filter (\<lambda>c. is_digit c \<or> c = DOT) (map (\<lambda>c. if c = COMMA then DOT else c) raw)"

definition clean :: "props \<Rightarrow> js_string \<Rightarrow> js_string" where
  "clean p raw =
     (let cl = normalized raw
      in if input_type p = Integer then filter (\<lambda>c. c \<noteq> DOT) cl
         else case indexOf cl DOT of
                None \<Rightarrow> cl
              | Some dotIndex \<Rightarrow>
                  (let beforeDot = take dotIndex cl;
                       afterDotRaw = filter (\<lambda>c. c \<noteq> DOT) (drop (dotIndex + 1) cl);
                       afterDot = slice_to afterDotRaw (maxDecimals p)
                   in beforeDot @ [DOT] @ afterDot))"

definition sanitize :: "props \<Rightarrow> js_string \<Rightarrow> sanitized" where
  "sanitize p raw =
     (let cl = clean p raw
      in \<lparr>cleaned = cl,
          numericValue =
            (if cl \<noteq> [] \<and> cl \<noteq> [DOT]
             then (let n = Number cl in if isFinite n then Some n else None)
             else None)\<rparr>)"

subsection \<open>The limit\<close>

definition getDigitCount :: "js_string \<Rightarrow> nat" where
  "getDigitCount str = length (filter is_digit str)"

definition checkLimit :: "props \<Rightarrow> js_string \<Rightarrow> number option \<Rightarrow> bool" where
  "checkLimit p cl nv =
     (if limitType p = LimitMax \<and> max_prop p \<noteq> None
      then (case nv of None \<Rightarrow> False | Some n \<Rightarrow> js_gt n (the (max_prop p)))
      else if limitType p = LimitMaxLength \<and> maxLength p \<noteq> None
      then js_gt (Finite (of_nat (getDigitCount cl))) (the (maxLength p))
      else False)"

subsection \<open>Focus and blur\<close>

definition onFocus :: "state \<Rightarrow> state" where
  "onFocus s = (let s1 = s\<lparr>isFocused := True\<rparr> in s1\<lparr>emitted := emitted s1 @ [Focus]\<rparr>)"

text \<open>\<^verbatim>\<open>str.endsWith('.')\<close>; \<^verbatim>\<open>str.slice(0, -1)\<close> is \<open>butlast str\<close>.\<close>

definition endsWith :: "js_string \<Rightarrow> code_unit \<Rightarrow> bool" where
  "endsWith str x = (str \<noteq> [] \<and> last str = x)"

definition onBlur :: "state \<Rightarrow> state" where
  "onBlur s =
     (let s1 = s\<lparr>isFocused := False, hasError := False\<rparr>;
          s2 = (if endsWith (displayValue s1) DOT
                then s1\<lparr>displayValue := butlast (displayValue s1)\<rparr>
                else s1)
      in s2\<lparr>emitted := emitted s2 @ [Blur]\<rparr>)"

subsection \<open>Input\<close>

text \<open>
  The loop of the \<^verbatim>\<open>nextTick\<close> callback:
  \<^verbatim>\<open>for (let i = 0; i < newFormatted.length && charCount < charsBeforeCursor; i++)\<close>
  with the body \<^verbatim>\<open>newCursorPos = i + 1; if (newFormatted[i] !== ' ') charCount++\<close>.
\<close>

function caret_loop :: "js_string \<Rightarrow> nat \<Rightarrow> nat \<Rightarrow> nat \<Rightarrow> nat \<Rightarrow> nat" where
  "caret_loop newFormatted charsBeforeCursor i charCount newCursorPos =
     (if i < length newFormatted \<and> charCount < charsBeforeCursor
      then caret_loop newFormatted charsBeforeCursor (i + 1)
             (if newFormatted ! i \<noteq> SPACE then charCount + 1 else charCount) (i + 1)
      else newCursorPos)"
  by pat_completeness auto
termination
  by (relation "measure (\<lambda>(newFormatted, charsBeforeCursor, i, charCount, newCursorPos).
                           length newFormatted - i)") auto

declare caret_loop.simps [simp del]

text \<open>
  What the callback computes from the captured \<^verbatim>\<open>oldFormatted\<close> and \<^verbatim>\<open>cursorPos\<close> and the
  display string it finds. \<^verbatim>\<open>oldSpacesBefore\<close> counts \<^verbatim>\<open>\s\<close> in
  \<^verbatim>\<open>oldFormatted.slice(0, cursorPos)\<close>, so it never exceeds \<^verbatim>\<open>cursorPos\<close>.
\<close>

definition newCursorPos :: "js_string \<Rightarrow> nat \<Rightarrow> js_string \<Rightarrow> nat" where
  "newCursorPos oldFormatted cursorPos newFormatted =
     (let oldSpacesBefore = length (filter is_space (take cursorPos oldFormatted));
          charsBeforeCursor = cursorPos - oldSpacesBefore
      in caret_loop newFormatted charsBeforeCursor 0 0 0)"

definition runTick :: "js_string \<times> nat \<Rightarrow> state \<Rightarrow> state" where
  "runTick t s =
     (if \<not> inputRef s then s
      else s\<lparr>selectionRanges :=
               selectionRanges s @ [newCursorPos (fst t) (snd t) (displayValue s)]\<rparr>)"

definition onInput :: "props \<Rightarrow> state \<Rightarrow> state" where
  "onInput p s =
     (if disabled p then s
      else let cursorPos = (case selectionStart s of None \<Rightarrow> 0 | Some n \<Rightarrow> n);
               oldFormatted = displayValue s;
               r = sanitize p (input_value s)
           in if checkLimit p (cleaned r) (numericValue r)
              then s\<lparr>hasError := True, input_value := displayValue s\<rparr>
              else s\<lparr>hasError := False,
                     displayValue := formatFromCleaned (cleaned r),
                     emitted := emitted s @ [UpdateModelValue (numericValue r)],
                     ticks := ticks s @ [(oldFormatted, cursorPos)]\<rparr>)"

subsection \<open>The caret algorithm as the specification words it\<close>


fun spec_scan :: "js_string \<Rightarrow> nat \<Rightarrow> nat \<Rightarrow> nat \<Rightarrow> nat" where
  "spec_scan [] target seen pos = pos"
| "spec_scan (c # cs) target seen pos =
     (if seen < target
      then spec_scan cs target (if c \<noteq> SPACE then seen + 1 else seen) (pos + 1)
      else pos)"


text \<open>The comparison \<^verbatim>\<open>a === b\<close> of two values of type \<^verbatim>\<open>number | null\<close>.\<close>

fun strict_equals :: "number option \<Rightarrow> number option \<Rightarrow> bool" where
  "strict_equals None None = True"
| "strict_equals (Some a) (Some b) = (a = b \<and> a \<noteq> NaN)"
| "strict_equals None (Some b) = False"
| "strict_equals (Some a) None = False"

subsection \<open>States for the examples\<close>

text \<open>
  A mounted field that has the focus and shows \<open>d\<close>, with nothing emitted yet; and the edit
  the browser applies to the input element before it dispatches the input event: the new text
  and the new caret.
\<close>

definition showing :: "js_string \<Rightarrow> state" where
  "showing d =
     \<lparr>displayValue = d, isFocused = True, hasError = False, input_value = d,
      selectionStart = Some (length d), inputRef = True, emitted = [], ticks = [],
      selectionRanges = []\<rparr>"

definition browser_edit :: "js_string \<Rightarrow> nat \<Rightarrow> state \<Rightarrow> state" where
  "browser_edit raw caret s = s\<lparr>input_value := raw, selectionStart := Some caret\<rparr>"

section \<open>Auxiliary facts\<close>

subsection \<open>Lists\<close>

lemma filter_insert_spaces:
  "filter (\<lambda>c. c \<noteq> SPACE) (insert_spaces b s) = filter (\<lambda>c. c \<noteq> SPACE) s"
  by (induction s arbitrary: b) auto

lemma indexOf_Some:
  "indexOf s x = Some i \<Longrightarrow> i < length s \<and> s ! i = x \<and> x \<notin> set (take i s)"
  by (induction s arbitrary: i) (auto split: if_splits)

lemma indexOf_None: "indexOf s x = None \<longleftrightarrow> x \<notin> set s"
  by (induction s) auto

lemma indexOf_split:
  assumes "indexOf s x = Some i"
  shows "s = take i s @ x # drop (Suc i) s"
proof -
  have "i < length s" and "s ! i = x"
    using indexOf_Some [OF assms] by simp_all
  then show ?thesis
    using id_take_nth_drop [of i s] by simp
qed

lemma indexOf_append_notin:
  "x \<notin> set a \<Longrightarrow> indexOf (a @ x # b) x = Some (length a)"
  by (induction a) auto

lemma indexOf_append_in:
  "x \<in> set a \<Longrightarrow> indexOf (a @ b) x = indexOf a x"
  by (induction a) auto

lemma set_slice_to: "set (slice_to s e) \<subseteq> set s"
  by (cases e) (auto simp: slice_to_def Let_def dest: in_set_takeD)

lemma set_normalized: "c \<in> set (normalized raw) \<Longrightarrow> is_digit c \<or> c = DOT"
  by (auto simp: normalized_def)

lemma set_clean: "c \<in> set (clean p raw) \<Longrightarrow> is_digit c \<or> c = DOT"
proof -
  assume c: "c \<in> set (clean p raw)"
  let ?n = "normalized raw"
  have n: "\<And>x. x \<in> set ?n \<Longrightarrow> is_digit x \<or> x = DOT"
    by (rule set_normalized)
  show ?thesis
  proof (cases "input_type p = Integer")
    case True
    then show ?thesis using c n by (auto simp: clean_def)
  next
    case False
    show ?thesis
    proof (cases "indexOf ?n DOT")
      case None
      then show ?thesis using c n False by (auto simp: clean_def)
    next
      case (Some i)
      have "set (slice_to (filter (\<lambda>c. c \<noteq> DOT) (drop (i + 1) ?n)) (maxDecimals p))
              \<subseteq> set ?n"
        using set_slice_to [of "filter (\<lambda>c. c \<noteq> DOT) (drop (i + 1) ?n)" "maxDecimals p"]
        by (auto dest: in_set_dropD)
      then have "c \<in> set ?n \<or> c = DOT"
        using c False Some by (auto simp: clean_def Let_def dest: in_set_takeD)
      then show ?thesis using n by blast
    qed
  qed
qed

lemma normalized_id: "\<forall>c\<in>set s. is_digit c \<or> c = DOT \<Longrightarrow> normalized s = s"
  by (induction s) (auto simp: normalized_def is_digit_def)

lemma normalized_append: "normalized (a @ b) = normalized a @ normalized b"
  by (simp add: normalized_def)

lemma not_space_clean: "c \<in> set (clean p raw) \<Longrightarrow> \<not> is_space c"
  by (drule set_clean) (auto simp: is_digit_def is_space_def)

lemma formatFromCleaned_strip:
  assumes "SPACE \<notin> set cl"
  shows "filter (\<lambda>c. c \<noteq> SPACE) (formatFromCleaned cl) = cl"
proof (cases "indexOf cl DOT")
  case None
  then show ?thesis using assms
    by (auto simp: formatFromCleaned_def formatWithSpaces_def filter_insert_spaces filter_id_conv)
next
  case (Some i)
  have ns: "filter (\<lambda>c. c \<noteq> SPACE) cl = cl"
    using assms by (auto simp: filter_id_conv)
  have "filter (\<lambda>c. c \<noteq> SPACE) (formatFromCleaned cl)
          = filter (\<lambda>c. c \<noteq> SPACE) (take i cl @ DOT # drop (Suc i) cl)"
    using Some by (auto simp: formatFromCleaned_def formatWithSpaces_def filter_insert_spaces)
  also have "\<dots> = filter (\<lambda>c. c \<noteq> SPACE) cl"
    using indexOf_split [OF Some] by simp
  finally show ?thesis using ns by simp
qed

lemma cleaned_sanitize: "cleaned (sanitize p raw) = clean p raw"
  by (simp add: sanitize_def Let_def)

subsection \<open>The caret loop\<close>

lemma spec_scan_stop: "\<not> (cs \<noteq> [] \<and> seen < target) \<Longrightarrow> spec_scan cs target seen pos = pos"
  by (cases cs) auto

lemma caret_loop_spec:
  "caret_loop nf cb i cc ncp =
     (if i < length nf \<and> cc < cb then spec_scan (drop i nf) cb cc i else ncp)"
proof (induction nf cb i cc ncp rule: caret_loop.induct)
  case (1 nf cb i cc ncp)
  show ?case
  proof (cases "i < length nf \<and> cc < cb")
    case False
    then show ?thesis by (subst caret_loop.simps) auto
  next
    case True
    let ?cc = "if nf ! i \<noteq> SPACE then cc + 1 else cc"
    have d: "drop i nf = nf ! i # drop (i + 1) nf"
      using True by (simp add: Cons_nth_drop_Suc)
    have "caret_loop nf cb i cc ncp = caret_loop nf cb (i + 1) ?cc (i + 1)"
      using True by (subst caret_loop.simps) simp
    also have "\<dots> = (if i + 1 < length nf \<and> ?cc < cb
                     then spec_scan (drop (i + 1) nf) cb ?cc (i + 1) else i + 1)"
      using True by (rule "1.IH")
    also have "\<dots> = spec_scan (drop (i + 1) nf) cb ?cc (i + 1)"
      using spec_scan_stop [of "drop (i + 1) nf" ?cc cb "i + 1"] by auto
    also have "\<dots> = spec_scan (drop i nf) cb cc i"
      using True by (subst d) simp
    finally show ?thesis using True by simp
  qed
qed

lemma newCursorPos_scan:
  "newCursorPos old cp new = spec_scan new (cp - length (filter is_space (take cp old))) 0 0"
  by (auto simp: newCursorPos_def Let_def caret_loop_spec spec_scan_stop)

subsection \<open>The binary exponent\<close>

lemma bit_length_bounds:
  "0 < n \<Longrightarrow> 2 ^ (bit_length n - 1) \<le> n \<and> n < 2 ^ bit_length n"
proof (induction n rule: bit_length.induct)
  case (1 n)
  show ?case
  proof (cases "n div 2 = 0")
    case True
    then have "n = 1" using "1.prems" by linarith
    then show ?thesis by (simp add: bit_length.simps)
  next
    case False
    define k :: nat where "k = 2 ^ (bit_length (n div 2) - 1)"
    have h: "k \<le> n div 2 \<and> n div 2 < 2 ^ bit_length (n div 2)"
      using "1.IH" "1.prems" False by (simp add: k_def)
    have b: "bit_length n = Suc (bit_length (n div 2))"
      using "1.prems" by (subst bit_length.simps) simp
    have p: "0 < bit_length (n div 2)"
      using False by (subst bit_length.simps) simp
    then have e: "(2::nat) ^ bit_length (n div 2) = 2 * k"
      by (cases "bit_length (n div 2)") (simp_all add: k_def)
    have "2 * k \<le> n \<and> n < 4 * k"
      using h unfolding e by linarith
    then show ?thesis by (simp add: b e k_def)
  qed
qed

lemma floor_log2_correct:
  assumes "0 < q"
  shows "2 powi floor_log2 q \<le> q \<and> q < 2 powi (floor_log2 q + 1)"
proof (cases "1 \<le> q")
  case True
  define n where "n = nat \<lfloor>q\<rfloor>"
  have n: "0 < n" using True by (simp add: n_def)
  have "0 \<le> \<lfloor>q\<rfloor>" using True by simp
  then have "rat_of_nat n = of_int \<lfloor>q\<rfloor>" by (simp add: n_def)
  then have nq: "rat_of_nat n \<le> q" "q < rat_of_nat n + 1"
    by linarith+
  have fl: "floor_log2 q = int (bit_length n) - 1"
    using True by (simp add: floor_log2_def n_def)
  have bl: "0 < bit_length n" using n by (subst bit_length.simps) simp
  then have fl1: "floor_log2 q = int (bit_length n - 1)"
    and fl2: "floor_log2 q + 1 = int (bit_length n)"
    using fl by simp_all
  from bit_length_bounds [OF n] have "2 ^ (bit_length n - 1) \<le> n" "n + 1 \<le> 2 ^ bit_length n"
    by simp_all
  then have "rat_of_nat (2 ^ (bit_length n - 1)) \<le> rat_of_nat n"
    "rat_of_nat (n + 1) \<le> rat_of_nat (2 ^ bit_length n)"
    by (simp_all only: of_nat_le_iff)
  then have "(2::rat) ^ (bit_length n - 1) \<le> rat_of_nat n"
    "rat_of_nat n + 1 \<le> 2 ^ bit_length n"
    by (simp_all only: of_nat_power of_nat_numeral of_nat_add of_nat_1)
  then have lo: "(2::rat) ^ (bit_length n - 1) \<le> q" and hi: "q < 2 ^ bit_length n"
    using nq by linarith+
  have "2 powi floor_log2 q \<le> q"
    using lo unfolding fl1 power_int_of_nat .
  moreover have "q < 2 powi (floor_log2 q + 1)"
    using hi unfolding fl2 power_int_of_nat .
  ultimately show ?thesis by simp
next
  case False
  define m where "m = nat (\<lceil>1 / q\<rceil> - 1)"
  have q1: "1 < 1 / q" using False assms by simp
  then have c: "2 \<le> \<lceil>1 / q\<rceil>" by linarith
  then have m: "0 < m" unfolding m_def by linarith
  have "0 \<le> \<lceil>1 / q\<rceil> - 1" using c by linarith
  then have "int m = \<lceil>1 / q\<rceil> - 1" unfolding m_def by (rule nat_0_le)
  then have "rat_of_int (int m) = of_int (\<lceil>1 / q\<rceil> - 1)" by (simp only:)
  then have "rat_of_nat m = of_int \<lceil>1 / q\<rceil> - 1" by simp
  then have mq: "rat_of_nat m < 1 / q" "1 / q \<le> rat_of_nat m + 1"
    by linarith+
  have fl: "floor_log2 q = - int (bit_length m)"
    using False by (simp add: floor_log2_def m_def)
  have bl: "0 < bit_length m" using m by (subst bit_length.simps) simp
  from bit_length_bounds [OF m] have "2 ^ (bit_length m - 1) \<le> m" "m + 1 \<le> 2 ^ bit_length m"
    by simp_all
  then have "rat_of_nat (2 ^ (bit_length m - 1)) \<le> rat_of_nat m"
    "rat_of_nat (m + 1) \<le> rat_of_nat (2 ^ bit_length m)"
    by (simp_all only: of_nat_le_iff)
  then have "(2::rat) ^ (bit_length m - 1) \<le> rat_of_nat m"
    "rat_of_nat m + 1 \<le> 2 ^ bit_length m"
    by (simp_all only: of_nat_power of_nat_numeral of_nat_add of_nat_1)
  then have u: "(2::rat) ^ (bit_length m - 1) < 1 / q" and l: "1 / q \<le> 2 ^ bit_length m"
    using mq by linarith+
  have "1 / (2::rat) ^ bit_length m \<le> q"
    using l assms by (simp add: field_simps)
  moreover have "q < 1 / 2 ^ (bit_length m - 1)"
    using u assms by (simp add: field_simps)
  moreover have "(2::rat) powi (- int (bit_length m)) = 1 / 2 ^ bit_length m"
    by (simp add: power_int_minus field_simps)
  moreover have "(2::rat) powi (- int (bit_length m) + 1) = 1 / 2 ^ (bit_length m - 1)"
  proof -
    have "- int (bit_length m) + 1 = - int (bit_length m - 1)" using bl by simp
    then show ?thesis by (simp only: power_int_minus power_int_of_nat) (simp add: field_simps)
  qed
  ultimately show ?thesis unfolding fl by simp
qed

subsection \<open>Parsing plain decimal strings\<close>

lemma set_trim: "set (trim s) \<subseteq> set s"
proof -
  have "set (dropWhile is_space (rev (dropWhile is_space s))) \<subseteq> set (rev (dropWhile is_space s))"
    by (rule set_dropWhileD [THEN subsetI]) 
  then show ?thesis
    unfolding trim_def using set_dropWhileD [of _ is_space s] by auto
qed

lemma trim_id:
  assumes "\<forall>c\<in>set s. \<not> is_space c"
  shows "trim s = s"
proof -
  have "dropWhile is_space s = s"
    using assms by (cases s) auto
  moreover have "dropWhile is_space (rev s) = rev s"
    using assms by (cases "rev s") (auto simp: rev_eq_Cons_iff)
  ultimately show ?thesis by (simp add: trim_def)
qed

lemma plain_not_space: "is_digit c \<or> c = DOT \<Longrightarrow> \<not> is_space c"
  by (auto simp: is_digit_def is_space_def)

lemma Number_plain:
  assumes plain: "\<forall>c\<in>set s. is_digit c \<or> c = DOT" and ne: "s \<noteq> []"
  shows "Number s = (case unsigned_decimal s of None \<Rightarrow> NaN | Some q \<Rightarrow> round64 q)"
proof -
  have t: "trim s = s"
    using plain plain_not_space by (intro trim_id) blast
  have h: "is_digit (hd s) \<or> hd s = DOT"
    using plain ne by (cases s) auto
  then have sign: "hd s \<noteq> 43" "hd s \<noteq> 45"
    by (auto simp: is_digit_def)
  have nd: "non_decimal_literal s = None"
  proof (cases s)
    case Nil
    then show ?thesis by (simp add: non_decimal_literal_def)
  next
    case (Cons a r)
    show ?thesis
    proof (cases r)
      case Nil
      then show ?thesis using Cons by (simp add: non_decimal_literal_def)
    next
      case (Cons b ds)
      have "is_digit b \<or> b = DOT"
        using plain \<open>s = a # r\<close> Cons by simp
      then have "b \<noteq> 120" "b \<noteq> 88" "b \<noteq> 111" "b \<noteq> 79" "b \<noteq> 98" "b \<noteq> 66"
        by (auto simp: is_digit_def)
      then show ?thesis
        using \<open>s = a # r\<close> Cons by (simp add: non_decimal_literal_def)
    qed
  qed
  have inf: "s \<noteq> js ''Infinity''"
  proof
    assume "s = js ''Infinity''"
    then have "hd s = 73" by (simp add: js_def)
    then show False using h by (auto simp: is_digit_def)
  qed
  show ?thesis
    using t ne nd sign inf by (simp add: Number_def Let_def split: option.split)
qed

lemma digits_all: "list_all is_digit ds \<Longrightarrow> takeWhile is_digit (ds @ r) = ds @ takeWhile is_digit r"
  by (simp add: list_all_iff)

lemma digits_drop: "list_all is_digit ds \<Longrightarrow> dropWhile is_digit (ds @ r) = dropWhile is_digit r"
  by (simp add: list_all_iff)

lemma digits_only:
  assumes "list_all is_digit ds"
  shows "takeWhile is_digit ds = ds" and "dropWhile is_digit ds = []"
  using assms digits_all [of ds "[]"] digits_drop [of ds "[]"] by simp_all

lemma not_digit_DOT: "\<not> is_digit DOT"
  by (simp add: is_digit_def)

lemma unsigned_decimal_digits:
  assumes "list_all is_digit ds" and "ds \<noteq> []"
  shows "unsigned_decimal ds = Some (of_nat (digits_value 10 ds))"
  using assms(2)
  by (simp add: unsigned_decimal_def Let_def exponent_part_def digits_only [OF assms(1)]
      digits_value_def)

lemma unsigned_decimal_fraction:
  assumes "list_all is_digit ip" and "list_all is_digit fp" and "ip \<noteq> [] \<or> fp \<noteq> []"
  shows "unsigned_decimal (ip @ DOT # fp)
           = Some (of_nat (digits_value 10 ip) + of_nat (digits_value 10 fp) / 10 ^ length fp)"
proof -
  have a: "takeWhile is_digit (ip @ DOT # fp) = ip"
    using assms(1) digits_all [of ip "DOT # fp"] by (simp add: not_digit_DOT)
  have b: "dropWhile is_digit (ip @ DOT # fp) = DOT # fp"
    using assms(1) digits_drop [of ip "DOT # fp"] by (simp add: not_digit_DOT)
  note c = digits_only [OF assms(2)]
  show ?thesis
    using assms(3) by (auto simp: unsigned_decimal_def Let_def a b c exponent_part_def)
qed

lemma Number_digits:
  assumes "list_all is_digit ds" and "ds \<noteq> []"
  shows "Number ds = round64 (of_nat (digits_value 10 ds))"
  using assms Number_plain [of ds] unsigned_decimal_digits [of ds]
  by (auto simp: list_all_iff)

lemma Number_fraction:
  assumes "list_all is_digit ip" and "list_all is_digit fp" and "ip \<noteq> [] \<or> fp \<noteq> []"
  shows "Number (ip @ DOT # fp)
           = round64 (of_nat (digits_value 10 ip) + of_nat (digits_value 10 fp) / 10 ^ length fp)"
  using assms Number_plain [of "ip @ DOT # fp"] unsigned_decimal_fraction [of ip fp]
  by (auto simp: list_all_iff)

lemma round_half_even_nonneg: "0 \<le> x \<Longrightarrow> 0 \<le> round_half_even x"
  by (auto simp: round_half_even_def Let_def)

lemma round64_nonneg:
  assumes "0 \<le> q" and "round64 q = Finite r"
  shows "0 \<le> r"
proof (cases "q = 0")
  case True
  then show ?thesis using assms by (simp add: round64_def)
next
  case False
  define p where "p = max (floor_log2 q - 52) (- 1074)"
  have "0 \<le> q / 2 powi p" using assms(1) by simp
  then have "0 \<le> round_half_even (q / 2 powi p)" by (rule round_half_even_nonneg)
  then have "(0::rat) \<le> of_int (round_half_even (q / 2 powi p)) * 2 powi p" by simp
  then show ?thesis
    using assms(2) False by (auto simp: round64_def Let_def p_def split: if_splits)
qed

lemma round64_cases:
  "0 \<le> q \<Longrightarrow> round64 q = PosInfinity \<or> (\<exists>r. round64 q = Finite r \<and> 0 \<le> r)"
  using round64_nonneg [of q] by (auto simp: round64_def Let_def)


lemma bit_length_0: "bit_length 0 = 0"
  by (simp add: bit_length.simps)

lemma bit_length_numeral: "bit_length (numeral k) = Suc (bit_length (numeral k div 2))"
  by (subst bit_length.simps) simp

lemma floor_rat_numeral: "\<lfloor>numeral a / numeral b :: rat\<rfloor> = numeral a div numeral b"
  by (metis floor_divide_of_int_eq of_int_numeral)

lemma ceiling_rat_numeral: "\<lceil>numeral a / numeral b :: rat\<rceil> = - (- numeral a div numeral b)"
  using ceiling_divide_eq_div [of "numeral a" "numeral b", where ?'a = rat] by simp

lemma ceiling_rat_minus_one: "\<lceil>- 1 :: rat\<rceil> = - 1"
  using ceiling_of_int [of "- 1", where ?'a = rat] by simp

lemma bit_length_1: "bit_length (Suc 0) = 1"
  by (simp add: bit_length.simps)

text \<open>The definitions unfolded to run the number model on a concrete input.\<close>

lemmas number_simps = round64_def floor_log2_def round_half_even_def bit_length_0 bit_length_1
  bit_length_numeral digits_value_def digit_value_def Let_def floor_rat_numeral ceiling_rat_numeral

text \<open>The definitions unfolded to run the model on a concrete input.\<close>

lemmas eval_simps =
  js_def is_digit_def is_word_def is_space_def normalized_def clean_def slice_to_def
  formatFromCleaned_def formatWithSpaces_def lookahead_def cleaned_sanitize default_props_def
  Let_def

subsection \<open>The shape of a cleaned string and its display\<close>

lemma clean_shape:
  "list_all is_digit (clean p raw)
   \<or> (\<exists>ip fp. clean p raw = ip @ DOT # fp \<and> list_all is_digit ip \<and> list_all is_digit fp)"
proof -
  let ?n = "normalized raw"
  have n: "\<And>x. x \<in> set ?n \<Longrightarrow> x \<noteq> DOT \<Longrightarrow> is_digit x"
    using set_normalized by blast
  show ?thesis
  proof (cases "input_type p = Integer")
    case True
    then show ?thesis using n by (auto simp: clean_def list_all_iff)
  next
    case False
    show ?thesis
    proof (cases "indexOf ?n DOT")
      case None
      then have "DOT \<notin> set ?n" by (simp add: indexOf_None)
      then have "list_all is_digit ?n" using n by (auto simp: list_all_iff)
      then show ?thesis using False None by (simp add: clean_def)
    next
      case (Some i)
      let ?fp = "slice_to (filter (\<lambda>c. c \<noteq> DOT) (drop (i + 1) ?n)) (maxDecimals p)"
      have "DOT \<notin> set (take i ?n)" using indexOf_Some [OF Some] by simp
      then have ip: "list_all is_digit (take i ?n)"
        using n by (auto simp: list_all_iff dest: in_set_takeD)
      have "set ?fp \<subseteq> set (filter (\<lambda>c. c \<noteq> DOT) (drop (i + 1) ?n))"
        by (rule set_slice_to)
      then have fp: "list_all is_digit ?fp"
        using n by (auto simp: list_all_iff dest: in_set_dropD)
      have "clean p raw = take i ?n @ DOT # ?fp"
        using False Some by (simp add: clean_def Let_def)
      then show ?thesis using ip fp by blast
    qed
  qed
qed

lemma filter_not_space_insert_spaces:
  "filter (\<lambda>c. \<not> is_space c) (insert_spaces b s) = filter (\<lambda>c. \<not> is_space c) s"
  by (induction s arbitrary: b) (auto simp: is_space_def)

lemma formatFromCleaned_strip_ws:
  assumes "\<forall>c\<in>set cl. \<not> is_space c"
  shows "filter (\<lambda>c. \<not> is_space c) (formatFromCleaned cl) = cl"
proof (cases "indexOf cl DOT")
  case None
  then show ?thesis using assms
    by (auto simp: formatFromCleaned_def formatWithSpaces_def filter_not_space_insert_spaces filter_id_conv)
next
  case (Some i)
  have ns: "filter (\<lambda>c. \<not> is_space c) cl = cl"
    using assms by (auto simp: filter_id_conv)
  have "\<not> is_space DOT" by (simp add: is_space_def)
  then have "filter (\<lambda>c. \<not> is_space c) (formatFromCleaned cl)
          = filter (\<lambda>c. \<not> is_space c) (take i cl @ DOT # drop (Suc i) cl)"
    using Some by (auto simp: formatFromCleaned_def formatWithSpaces_def filter_not_space_insert_spaces)
  also have "\<dots> = filter (\<lambda>c. \<not> is_space c) cl"
    using indexOf_split [OF Some] by simp
  finally show ?thesis using ns by simp
qed

lemma insert_spaces_Nil: "insert_spaces b s = [] \<longleftrightarrow> s = []"
  by (cases s) auto

lemma last_insert_spaces: "s \<noteq> [] \<Longrightarrow> last (insert_spaces b s) = last s"
  by (induction s arbitrary: b) (auto simp: insert_spaces_Nil)

lemma digits_plain: "list_all is_digit ds \<Longrightarrow> filter (\<lambda>c. \<not> is_space c) ds = ds"
  by (induction ds) (auto simp: is_digit_def is_space_def)

lemma digits_no_comma: "list_all is_digit ds \<Longrightarrow> map (\<lambda>c. if c = COMMA then DOT else c) ds = ds"
  by (induction ds) (auto simp: is_digit_def)

lemma digits_no_dot: "list_all is_digit ds \<Longrightarrow> DOT \<notin> set ds"
  by (auto simp: list_all_iff is_digit_def)

lemma formatFromCleaned_digits:
  "list_all is_digit ds \<Longrightarrow> formatFromCleaned ds = formatWithSpaces ds"
  using digits_no_dot [of ds]
  by (cases "ds = []") (auto simp: formatFromCleaned_def formatWithSpaces_def indexOf_None [symmetric])

lemma formatFromCleaned_fraction:
  "list_all is_digit ip \<Longrightarrow> formatFromCleaned (ip @ DOT # fp) = formatWithSpaces ip @ DOT # fp"
  using digits_no_dot [of ip]
  by (simp add: formatFromCleaned_def indexOf_append_notin)

lemma strip_plain:
  "\<forall>c\<in>set s. is_digit c \<or> c = DOT \<Longrightarrow>
     map (\<lambda>c. if c = COMMA then DOT else c) (filter (\<lambda>c. \<not> is_space c) s) = s"
  by (induction s) (auto simp: is_digit_def is_space_def)

lemma strip_display:
  "\<forall>c\<in>set s. is_digit c \<or> c = DOT \<Longrightarrow>
     map (\<lambda>c. if c = COMMA then DOT else c) (filter (\<lambda>c. \<not> is_space c) (insert_spaces b s)) = s"
  by (simp add: filter_not_space_insert_spaces strip_plain)

lemma parseDisplay_digits:
  assumes "list_all is_digit ds"
  shows "parseDisplay (formatWithSpaces ds)
           = (if ds = [] then None
              else if isFinite (Number ds) then Some (Number ds) else None)"
  using assms strip_display [of ds False]
  by (auto simp: parseDisplay_def formatWithSpaces_def Let_def list_all_iff not_digit_DOT)

lemma Number_trailing_dot:
  assumes "list_all is_digit ds" and "ds \<noteq> []"
  shows "Number (ds @ [DOT]) = Number ds"
  using assms Number_fraction [of ds "[]"] Number_digits [of ds]
  by (simp add: digits_value_def)

lemma parseDisplay_trailing_dot:
  assumes "list_all is_digit ds"
  shows "parseDisplay (formatWithSpaces ds @ [DOT]) = parseDisplay (formatWithSpaces ds)"
proof -
  have v: "map (\<lambda>c. if c = COMMA then DOT else c)
             (filter (\<lambda>c. \<not> is_space c) (formatWithSpaces ds @ [DOT])) = ds @ [DOT]"
    using assms strip_display [of ds False] strip_plain [of "[DOT]"]
    by (simp add: formatWithSpaces_def list_all_iff)
  show ?thesis
  proof (cases "ds = []")
    case True
    then show ?thesis by (simp add: parseDisplay_def formatWithSpaces_def is_space_def)
  next
    case False
    then show ?thesis
      using assms v Number_trailing_dot [of ds]
      by (simp add: parseDisplay_digits) (simp add: parseDisplay_def Let_def)
  qed
qed

lemma parseDisplay_formatFromCleaned:
  "parseDisplay (formatFromCleaned (clean p raw)) = numericValue (sanitize p raw)"
proof -
  let ?cl = "clean p raw"
  let ?strip = "\<lambda>s. map (\<lambda>c. if c = COMMA then DOT else c) (filter (\<lambda>c. \<not> is_space c) s)"
  have plain: "\<forall>c\<in>set ?cl. is_digit c \<or> c = DOT"
    using set_clean by blast
  have "?strip (formatFromCleaned ?cl) = ?cl"
  proof (cases "indexOf ?cl DOT")
    case None
    then show ?thesis
      using plain strip_display [of ?cl False]
      by (auto simp: formatFromCleaned_def formatWithSpaces_def)
  next
    case (Some i)
    have "\<forall>c\<in>set (take i ?cl). is_digit c \<or> c = DOT"
      using plain by (auto dest: in_set_takeD)
    then have a: "?strip (insert_spaces False (take i ?cl)) = take i ?cl"
      by (rule strip_display)
    have "\<forall>c\<in>set (DOT # drop (Suc i) ?cl). is_digit c \<or> c = DOT"
      using plain by (auto dest: in_set_dropD)
    then have b: "?strip (DOT # drop (Suc i) ?cl) = DOT # drop (Suc i) ?cl"
      by (rule strip_plain)
    have "formatFromCleaned ?cl = insert_spaces False (take i ?cl) @ DOT # drop (Suc i) ?cl"
      using Some by (auto simp: formatFromCleaned_def formatWithSpaces_def)
    then have "?strip (formatFromCleaned ?cl)
                 = ?strip (insert_spaces False (take i ?cl)) @ ?strip (DOT # drop (Suc i) ?cl)"
      by (simp del: filter.simps insert_spaces.simps)
    then show ?thesis
      using a b indexOf_split [OF Some] by simp
  qed
  then show ?thesis
    by (simp add: parseDisplay_def sanitize_def Let_def)
qed

lemma display_ends_with_dot:
  assumes "endsWith (formatFromCleaned (clean p raw)) DOT"
  shows "\<exists>ds. list_all is_digit ds \<and> clean p raw = ds @ [DOT]"
proof -
  from clean_shape [of p raw] show ?thesis
  proof
    assume d: "list_all is_digit (clean p raw)"
    show ?thesis
    proof (cases "clean p raw = []")
      case True
      then show ?thesis using assms by (simp add: formatFromCleaned_def endsWith_def)
    next
      case False
      then have "last (formatFromCleaned (clean p raw)) = last (clean p raw)"
        using d by (simp add: formatFromCleaned_digits formatWithSpaces_def last_insert_spaces)
      moreover have "last (clean p raw) \<in> set (clean p raw)"
        using False by simp
      ultimately show ?thesis
        using assms d digits_no_dot [of "clean p raw"] by (auto simp: endsWith_def)
    qed
  next
    assume "\<exists>ip fp. clean p raw = ip @ DOT # fp \<and> list_all is_digit ip \<and> list_all is_digit fp"
    then obtain ip fp where c: "clean p raw = ip @ DOT # fp"
      and ip: "list_all is_digit ip" and fp: "list_all is_digit fp"
      by blast
    have "fp = []"
    proof (rule ccontr)
      assume ne: "fp \<noteq> []"
      then have "last (formatFromCleaned (clean p raw)) = last fp"
        using c ip by (simp add: formatFromCleaned_fraction)
      moreover have "last fp \<in> set fp" using ne by simp
      ultimately show False
        using assms digits_no_dot [OF fp] by (auto simp: endsWith_def)
    qed
    then show ?thesis using c ip by auto
  qed
qed

lemma blur_keeps_value:
  assumes "endsWith (formatFromCleaned (clean p raw)) DOT"
  shows "parseDisplay (butlast (formatFromCleaned (clean p raw)))
           = parseDisplay (formatFromCleaned (clean p raw))"
proof -
  obtain ds where ds: "list_all is_digit ds" and c: "clean p raw = ds @ [DOT]"
    using display_ends_with_dot [OF assms] by blast
  have "formatFromCleaned (clean p raw) = formatWithSpaces ds @ [DOT]"
    using ds c formatFromCleaned_fraction [of ds "[]"] by simp
  then show ?thesis
    using parseDisplay_trailing_dot [OF ds] by (simp add: butlast_append)
qed

subsection \<open>An accepted edit\<close>

lemma onInput_accepted:
  assumes "\<not> disabled p"
    and "\<not> checkLimit p (cleaned (sanitize p (input_value s)))
             (numericValue (sanitize p (input_value s)))"
  shows "onInput p s =
     s\<lparr>hasError := False,
       displayValue := formatFromCleaned (cleaned (sanitize p (input_value s))),
       emitted := emitted s @ [UpdateModelValue (numericValue (sanitize p (input_value s)))],
       ticks := ticks s @ [(displayValue s, case selectionStart s of None \<Rightarrow> 0 | Some n \<Rightarrow> n)]\<rparr>"
  using assms by (simp add: onInput_def Let_def)

lemma onInput_disabled: "disabled p \<Longrightarrow> onInput p s = s"
  by (simp add: onInput_def)

lemma runTick_caret:
  "inputRef s \<Longrightarrow>
     selectionRanges (runTick (old, cp) s) = selectionRanges s @ [newCursorPos old cp (displayValue s)]"
  by (simp add: runTick_def)

subsection \<open>Counting before the caret\<close>


subsection \<open>The parse of a cleaned string\<close>

lemma Number_clean:
  assumes "clean p raw \<noteq> []" and "clean p raw \<noteq> [DOT]"
  shows "\<exists>q. 0 \<le> q \<and> Number (clean p raw) = round64 q"
proof -
  from clean_shape [of p raw] show ?thesis
  proof
    assume "list_all is_digit (clean p raw)"
    then have "Number (clean p raw) = round64 (of_nat (digits_value 10 (clean p raw)))"
      using assms(1) by (rule Number_digits)
    then show ?thesis by (intro exI [of _ "of_nat (digits_value 10 (clean p raw))"]) simp
  next
    assume "\<exists>ip fp. clean p raw = ip @ DOT # fp \<and> list_all is_digit ip \<and> list_all is_digit fp"
    then obtain ip fp where c: "clean p raw = ip @ DOT # fp"
      and ip: "list_all is_digit ip" and fp: "list_all is_digit fp"
      by blast
    have "ip \<noteq> [] \<or> fp \<noteq> []" using assms(2) c by auto
    then have "Number (clean p raw)
                 = round64 (of_nat (digits_value 10 ip) + of_nat (digits_value 10 fp) / 10 ^ length fp)"
      using c ip fp by (simp add: Number_fraction)
    then show ?thesis
      by (intro exI [of _ "of_nat (digits_value 10 ip) + of_nat (digits_value 10 fp) / 10 ^ length fp"])
        simp
  qed
qed

lemma Number_clean_cases:
  assumes "clean p raw \<noteq> []" and "clean p raw \<noteq> [DOT]"
  shows "Number (clean p raw) = PosInfinity \<or> (\<exists>r. Number (clean p raw) = Finite r \<and> 0 \<le> r)"
proof -
  obtain q where "0 \<le> q" and "Number (clean p raw) = round64 q"
    using Number_clean [OF assms] by blast
  then show ?thesis using round64_cases [of q] by simp
qed

lemma digits_value_snoc: "digits_value b (ds @ [c]) = b * digits_value b ds + digit_value c"
  by (simp add: digits_value_def)

lemma digits_value_zeros: "digits_value 10 (ds @ replicate n 48) = digits_value 10 ds * 10 ^ n"
proof (induction n)
  case 0
  then show ?case by simp
next
  case (Suc n)
  have "ds @ replicate (Suc n) 48 = (ds @ replicate n 48) @ [48]"
    by (simp add: replicate_append_same)
  then have "digits_value 10 (ds @ replicate (Suc n) 48)
               = 10 * digits_value 10 (ds @ replicate n 48) + digit_value 48"
    by (simp only: digits_value_snoc)
  then show ?case
    using Suc by (simp add: digit_value_def is_digit_def)
qed

lemma round64_overflow: "round64 (2 * 10 ^ 308) = PosInfinity"
  by (simp add: number_simps)

lemma Number_overflow: "Number (50 # replicate 308 48) = PosInfinity"
proof -
  have "list_all is_digit (50 # replicate 308 48)"
    by (simp add: list_all_iff is_digit_def)
  then have "Number (50 # replicate 308 48) = round64 (of_nat (digits_value 10 ([50] @ replicate 308 48)))"
    using Number_digits [of "50 # replicate 308 48"] by simp
  also have "\<dots> = round64 (2 * 10 ^ 308)"
    by (simp only: digits_value_zeros) (simp add: digits_value_def digit_value_def is_digit_def)
  finally show ?thesis by (simp only: round64_overflow)
qed


lemma clean_digits:
  assumes "list_all is_digit ds"
  shows "clean p ds = ds"
proof -
  have n: "normalized ds = ds"
    using assms by (intro normalized_id) (auto simp: list_all_iff)
  have d: "DOT \<notin> set ds" using assms by (rule digits_no_dot)
  then have "filter (\<lambda>c. c \<noteq> DOT) ds = ds" by (auto simp: filter_id_conv)
  moreover have "indexOf ds DOT = None" using d by (simp add: indexOf_None)
  ultimately show ?thesis using n by (simp add: clean_def)
qed

subsection \<open>Cleaning twice, and a second separator\<close>

lemma slice_to_nat: "slice_to s (Finite (of_nat m)) = take m s"
  by (simp add: slice_to_def)

lemma slice_to_idem:
  assumes "\<not> js_gt (Finite 0) e"
  shows "slice_to (slice_to s e) e = slice_to s e"
proof (cases e)
  case (Finite r)
  then have "0 \<le> r" using assms by simp
  then have "0 \<le> \<lfloor>r\<rfloor>" by simp
  then show ?thesis using Finite \<open>0 \<le> r\<close> by (simp add: slice_to_def Let_def)
qed (use assms in \<open>simp_all add: slice_to_def\<close>)

lemma slice_to_length:
  assumes "\<not> js_gt (Finite 0) e"
  shows "\<not> js_gt (Finite (of_nat (length (slice_to s e)))) e"
proof (cases e)
  case (Finite r)
  then have r: "0 \<le> r" using assms by simp
  then have "0 \<le> \<lfloor>r\<rfloor>" by simp
  then have "rat_of_nat (nat \<lfloor>r\<rfloor>) = of_int \<lfloor>r\<rfloor>" by simp
  also have "\<dots> \<le> r" by (rule of_int_floor_le)
  finally have "rat_of_nat (nat \<lfloor>r\<rfloor>) \<le> r" .
  moreover have "length (slice_to s e) \<le> nat \<lfloor>r\<rfloor>"
    using Finite r by (simp add: slice_to_def Let_def)
  then have "rat_of_nat (length (slice_to s e)) \<le> rat_of_nat (nat \<lfloor>r\<rfloor>)"
    by (simp only: of_nat_le_iff)
  ultimately show ?thesis using Finite by simp
qed (use assms in \<open>simp_all add: slice_to_def\<close>)

lemma sanitize_clean: "sanitize p raw =
    \<lparr>cleaned = clean p raw,
     numericValue = (if clean p raw \<noteq> [] \<and> clean p raw \<noteq> [DOT]
                     then (if isFinite (Number (clean p raw)) then Some (Number (clean p raw)) else None)
                     else None)\<rparr>"
  by (simp add: sanitize_def Let_def)

lemma sanitize_cong: "clean p a = clean p b \<Longrightarrow> sanitize p a = sanitize p b"
  by (simp add: sanitize_clean)

lemma clean_decimal:
  assumes "input_type p = Decimal"
  shows "clean p raw =
     (case indexOf (normalized raw) DOT of
        None \<Rightarrow> normalized raw
      | Some i \<Rightarrow> take i (normalized raw) @ [DOT]
                   @ slice_to (filter (\<lambda>c. c \<noteq> DOT) (drop (i + 1) (normalized raw))) (maxDecimals p))"
  using assms by (simp add: clean_def Let_def split: option.split)

lemma clean_fraction:
  assumes "input_type p = Decimal" and "list_all is_digit ip" and "list_all is_digit fp"
  shows "clean p (ip @ DOT # fp) = ip @ DOT # slice_to fp (maxDecimals p)"
proof -
  have "normalized (ip @ DOT # fp) = ip @ DOT # fp"
    using assms(2,3) by (intro normalized_id) (auto simp: list_all_iff)
  moreover have "indexOf (ip @ DOT # fp) DOT = Some (length ip)"
    using digits_no_dot [OF assms(2)] by (rule indexOf_append_notin)
  moreover have "filter (\<lambda>c. c \<noteq> DOT) fp = fp"
    using digits_no_dot [OF assms(3)] by (auto simp: filter_id_conv)
  ultimately show ?thesis using assms(1) by (simp add: clean_decimal)
qed

lemma clean_decimal_shape:
  assumes "input_type p = Decimal"
  shows "list_all is_digit (clean p raw)
     \<or> (\<exists>ip a. clean p raw = ip @ DOT # slice_to a (maxDecimals p)
                \<and> list_all is_digit ip \<and> list_all is_digit a)"
proof (cases "indexOf (normalized raw) DOT")
  case None
  then have "DOT \<notin> set (normalized raw)" by (simp add: indexOf_None)
  then have "list_all is_digit (normalized raw)"
    using set_normalized [of _ raw] by (auto simp: list_all_iff)
  then show ?thesis using assms None by (simp add: clean_decimal)
next
  case (Some i)
  let ?n = "normalized raw"
  let ?a = "filter (\<lambda>c. c \<noteq> DOT) (drop (i + 1) ?n)"
  have "DOT \<notin> set (take i ?n)" using indexOf_Some [OF Some] by simp
  then have "list_all is_digit (take i ?n)"
    using set_normalized [of _ raw] by (auto simp: list_all_iff dest: in_set_takeD)
  moreover have "list_all is_digit ?a"
    using set_normalized [of _ raw] by (auto simp: list_all_iff dest: in_set_dropD)
  moreover have "clean p raw = take i ?n @ DOT # slice_to ?a (maxDecimals p)"
    using assms Some by (simp add: clean_decimal)
  ultimately show ?thesis by blast
qed

lemma digits_slice_to: "list_all is_digit a \<Longrightarrow> list_all is_digit (slice_to a e)"
  using set_slice_to [of a e] by (auto simp: list_all_iff)

lemma clean_integer_digits:
  assumes "input_type p = Integer"
  shows "list_all is_digit (clean p raw)"
  using assms set_normalized [of _ raw] by (auto simp: clean_def list_all_iff)

lemma clean_idem:
  assumes "input_type p = Integer \<or> \<not> js_gt (Finite 0) (maxDecimals p)"
  shows "clean p (clean p raw) = clean p raw"
proof (cases "input_type p")
  case Integer
  then show ?thesis by (simp add: clean_integer_digits clean_digits)
next
  case Decimal
  then have md: "\<not> js_gt (Finite 0) (maxDecimals p)" using assms by simp
  from clean_decimal_shape [OF Decimal, of raw] show ?thesis
  proof
    assume "list_all is_digit (clean p raw)"
    then show ?thesis by (rule clean_digits)
  next
    assume "\<exists>ip a. clean p raw = ip @ DOT # slice_to a (maxDecimals p)
                \<and> list_all is_digit ip \<and> list_all is_digit a"
    then obtain ip a where c: "clean p raw = ip @ DOT # slice_to a (maxDecimals p)"
      and ip: "list_all is_digit ip" and a: "list_all is_digit a"
      by blast
    have "clean p (ip @ DOT # slice_to a (maxDecimals p))
            = ip @ DOT # slice_to (slice_to a (maxDecimals p)) (maxDecimals p)"
      using Decimal ip digits_slice_to [OF a] by (rule clean_fraction)
    then show ?thesis using c slice_to_idem [OF md] by simp
  qed
qed

lemma clean_dot_count: "length (filter (\<lambda>c. c = DOT) (clean p raw)) \<le> 1"
proof -
  have z: "filter (\<lambda>c. c = DOT) ds = []" if "list_all is_digit ds" for ds
    using digits_no_dot [OF that] by (auto simp: filter_empty_conv)
  from clean_shape [of p raw] show ?thesis
    by (auto simp: z)
qed

lemma clean_second_dot:
  assumes "DOT \<in> set (normalized xs)" and "d = DOT \<or> d = COMMA"
  shows "clean p (xs @ d # ys) = clean p (xs @ ys)"
proof -
  let ?a = "normalized xs" and ?b = "normalized ys"
  have n1: "normalized (xs @ d # ys) = ?a @ DOT # ?b"
    using assms(2) by (auto simp: normalized_def is_digit_def)
  have n2: "normalized (xs @ ys) = ?a @ ?b"
    by (rule normalized_append)
  obtain i where i: "indexOf ?a DOT = Some i"
    using assms(1) indexOf_None [of ?a DOT] by (cases "indexOf ?a DOT") auto
  then have il: "i < length ?a" using indexOf_Some by blast
  have i1: "indexOf (?a @ DOT # ?b) DOT = Some i" and i2: "indexOf (?a @ ?b) DOT = Some i"
    using assms(1) i by (simp_all add: indexOf_append_in)
  show ?thesis
  proof (cases "input_type p")
    case Integer
    then show ?thesis by (simp add: clean_def n1 n2)
  next
    case Decimal
    then show ?thesis using il by (simp add: clean_decimal n1 n2 i1 i2)
  qed
qed

subsection \<open>Concrete edits\<close>

lemma sanitize_empty:
  "sanitize default_props [] = \<lparr>cleaned = [], numericValue = None\<rparr>"
  by (simp add: sanitize_def eval_simps)

lemma sanitize_dot:
  "sanitize default_props [DOT] = \<lparr>cleaned = [DOT], numericValue = None\<rparr>"
  by (simp add: sanitize_def eval_simps)

lemma Number_empty: "Number [] = Finite 0"
  by (simp add: Number_def trim_def)

lemma Number_dot: "Number [DOT] = NaN"
  by (simp add: Number_def trim_def is_space_def non_decimal_literal_def js_def
      unsigned_decimal_def is_digit_def)

lemma sanitize_1234567_dot:
  "sanitize default_props (js ''1234567.'')
     = \<lparr>cleaned = js ''1234567.'', numericValue = Some (Finite 1234567)\<rparr>"
  using Number_fraction [of "js ''1234567''" "[]"]
  by (simp add: sanitize_def eval_simps number_simps)

lemma Number_1234567_dot: "Number (js ''1234567.'') = Finite 1234567"
  using Number_fraction [of "js ''1234567''" "[]"]
  by (simp add: js_def is_digit_def number_simps)

lemma sanitize_12_5:
  "sanitize default_props (js ''12.5'')
     = \<lparr>cleaned = js ''12.5'', numericValue = Some (Finite (25 / 2))\<rparr>"
  using Number_fraction [of "js ''12''" "js ''5''"]
  by (simp add: sanitize_def eval_simps number_simps)

lemma sanitize_42_dot:
  "sanitize default_props (js ''42.'') = \<lparr>cleaned = js ''42.'', numericValue = Some (Finite 42)\<rparr>"
  using Number_fraction [of "js ''42''" "[]"]
  by (simp add: sanitize_def eval_simps number_simps)

lemma sanitize_150:
  "sanitize (default_props\<lparr>max_prop := Some (Finite 100)\<rparr>) (js ''150'')
     = \<lparr>cleaned = js ''150'', numericValue = Some (Finite 150)\<rparr>"
  by (simp add: sanitize_def eval_simps Number_digits number_simps)

lemma sanitize_mixed:
  "sanitize default_props (js ''1,2.34,5x6'')
     = \<lparr>cleaned = js ''1.23'', numericValue = Some (Finite (2769713770832855 / 2251799813685248))\<rparr>"
  using Number_fraction [of "js ''1''" "js ''23''"]
  by (simp add: sanitize_def eval_simps number_simps)

lemma clean_second_dot_example:
  "clean default_props (js ''12.3.4'') = js ''12.34''"
  by (simp add: eval_simps)

section \<open>The claims\<close>

text \<open>
  C2. For every raw input, every type and every \<^verbatim>\<open>maxDecimals\<close>: removing the space characters
  from the display string that \<^verbatim>\<open>formatFromCleaned\<close> computes from the cleaned string of
  \<^verbatim>\<open>sanitize\<close> gives that cleaned string back, whether one removes the character U+0020 or
  all that \<^verbatim>\<open>\s\<close> matches. A cleaned string that ends in a bare \<^verbatim>\<open>.\<close> is one of them; the
  grouping only ever inserts spaces, and a cleaned string has none.
\<close>

theorem display_roundtrip:
  "filter (\<lambda>c. c \<noteq> SPACE) (formatFromCleaned (cleaned (sanitize p raw)))
     = cleaned (sanitize p raw)
   \<and> filter (\<lambda>c. \<not> is_space c) (formatFromCleaned (cleaned (sanitize p raw)))
     = cleaned (sanitize p raw)"
proof -
  have ws: "\<forall>c\<in>set (clean p raw). \<not> is_space c"
    using not_space_clean by blast
  then have "SPACE \<notin> set (clean p raw)"
    by (auto simp: is_space_def)
  then show ?thesis
    using ws by (simp add: cleaned_sanitize formatFromCleaned_strip formatFromCleaned_strip_ws)
qed

text \<open>The round trip at the raw input \<^verbatim>\<open>1234567,\<close>, whose display is \<^verbatim>\<open>1 234 567.\<close>.\<close>

theorem display_roundtrip_witness:
  "formatFromCleaned (cleaned (sanitize default_props (js ''1234567,''))) = js ''1 234 567.''
   \<and> filter (\<lambda>c. c \<noteq> SPACE) (js ''1 234 567.'')
       = cleaned (sanitize default_props (js ''1234567,''))"
  using display_roundtrip [of default_props "js ''1234567,''"]
  by (simp add: eval_simps)

text \<open>
  C7. The claim puts the caret at offset 2 when the old display is \<^verbatim>\<open>1234\<close>, the caret offset
  is 2 and the new display is \<^verbatim>\<open>1 234\<close>. The loop does not stop there: after two characters
  (\<^verbatim>\<open>1\<close> and the space) it has counted one non-space character only, so it advances over the
  digit \<^verbatim>\<open>2\<close> as well. As amended: the caret lands at offset 3, immediately after the second
  digit.
\<close>

theorem caret_after_second_digit:
  "newCursorPos (js ''1234'') 2 (js ''1 234'') = 3"
  by (simp add: newCursorPos_scan js_def is_space_def)

text \<open>The three characters before that caret are \<^verbatim>\<open>1 2\<close>.\<close>

theorem caret_after_second_digit_witness:
  "newCursorPos (js ''1234'') 2 (js ''1 234'') = 3 \<and> take 3 (js ''1 234'') = js ''1 2''"
  using caret_after_second_digit by (simp add: js_def)

text \<open>The offset is not 2.\<close>

theorem caret_offset_2_counterexample:
  "newCursorPos (js ''1234'') 2 (js ''1 234'') \<noteq> 2"
  by (simp add: newCursorPos_scan js_def is_space_def)




text \<open>
  C4. The limit check. With \<^verbatim>\<open>max\<close> configured it is violated exactly when the numeric value
  is not null and greater than \<^verbatim>\<open>max\<close>; with \<^verbatim>\<open>maxLength\<close> configured (and no \<^verbatim>\<open>max\<close>, which
  takes precedence in \<^verbatim>\<open>limitType\<close>) exactly when the number of digits of the cleaned
  string is greater than \<^verbatim>\<open>maxLength\<close>; with neither it is never violated. The digit count is
  the number of characters \<^verbatim>\<open>0\<close> to \<^verbatim>\<open>9\<close>, so a separator is not counted.
\<close>

theorem checkLimit_exact:
  "(max_prop p = Some m \<longrightarrow>
      checkLimit p cl nv = (case nv of None \<Rightarrow> False | Some n \<Rightarrow> js_gt n m))
   \<and> (max_prop p = None \<and> maxLength p = Some l \<longrightarrow>
        checkLimit p cl nv = js_gt (Finite (of_nat (getDigitCount cl))) l)
   \<and> (max_prop p = None \<and> maxLength p = None \<longrightarrow> \<not> checkLimit p cl nv)
   \<and> getDigitCount cl = length (filter is_digit cl)"
  by (auto simp: checkLimit_def limitType_def getDigitCount_def split: option.splits)

text \<open>
  With \<^verbatim>\<open>max = 100\<close>: 150 violates, 100 and null do not. With \<^verbatim>\<open>maxLength = 3\<close>: \<^verbatim>\<open>12.25\<close>
  has four digits and violates, \<^verbatim>\<open>12.5\<close> has three and does not. With no limit nothing does.
\<close>

theorem checkLimit_exact_witness:
  "checkLimit (default_props\<lparr>max_prop := Some (Finite 100)\<rparr>) (js ''150'') (Some (Finite 150))
   \<and> \<not> checkLimit (default_props\<lparr>max_prop := Some (Finite 100)\<rparr>) (js ''100'')
         (Some (Finite 100))
   \<and> \<not> checkLimit (default_props\<lparr>max_prop := Some (Finite 100)\<rparr>) [] None
   \<and> checkLimit (default_props\<lparr>maxLength := Some (Finite 3)\<rparr>) (js ''12.25'')
       (Some (Finite 12.25))
   \<and> \<not> checkLimit (default_props\<lparr>maxLength := Some (Finite 3)\<rparr>) (js ''12.5'')
         (Some (Finite 12.5))
   \<and> \<not> checkLimit default_props (js ''123456'') (Some (Finite 123456))"
  using
    checkLimit_exact [of "default_props\<lparr>max_prop := Some (Finite 100)\<rparr>" "Finite 100"
      "js ''150''" "Some (Finite 150)" "Finite 3"]
    checkLimit_exact [of "default_props\<lparr>max_prop := Some (Finite 100)\<rparr>" "Finite 100"
      "js ''100''" "Some (Finite 100)" "Finite 3"]
    checkLimit_exact [of "default_props\<lparr>max_prop := Some (Finite 100)\<rparr>" "Finite 100"
      "[]" None "Finite 3"]
    checkLimit_exact [of "default_props\<lparr>maxLength := Some (Finite 3)\<rparr>" "Finite 100"
      "js ''12.25''" "Some (Finite 12.25)" "Finite 3"]
    checkLimit_exact [of "default_props\<lparr>maxLength := Some (Finite 3)\<rparr>" "Finite 100"
      "js ''12.5''" "Some (Finite 12.5)" "Finite 3"]
    checkLimit_exact [of default_props "Finite 100" "js ''123456''" "Some (Finite 123456)"
      "Finite 3"]
  by (simp add: default_props_def js_def is_digit_def)

text \<open>
  C8. On blur, when the display string ends with \<^verbatim>\<open>.\<close>: exactly that last character is removed
  from the display; the only event emitted is \<^verbatim>\<open>blur\<close>, so no \<^verbatim>\<open>update:modelValue\<close>; the
  error flag is cleared, not raised. The value is unchanged: when the display is the one that
  an edit produced, the display after the blur still parses to the value that edit emitted;
  \<^verbatim>\<open>42.\<close> and \<^verbatim>\<open>42\<close> both parse to 42.
\<close>

theorem blur_strips_trailing_dot:
  assumes "endsWith (displayValue s) DOT"
  shows "displayValue (onBlur s) = butlast (displayValue s)
    \<and> displayValue (onBlur s) @ [DOT] = displayValue s
    \<and> emitted (onBlur s) = emitted s @ [Blur]
    \<and> \<not> hasError (onBlur s)
    \<and> (displayValue s = formatFromCleaned (cleaned (sanitize p raw)) \<longrightarrow>
         parseDisplay (displayValue (onBlur s)) = numericValue (sanitize p raw))
    \<and> parseDisplay (js ''42.'') = Some (Finite 42)
    \<and> parseDisplay (js ''42'') = Some (Finite 42)"
proof -
  have d: "displayValue (onBlur s) = butlast (displayValue s)"
    using assms by (simp add: onBlur_def Let_def)
  have "displayValue s \<noteq> []" and "last (displayValue s) = DOT"
    using assms by (simp_all add: endsWith_def)
  then have r: "butlast (displayValue s) @ [DOT] = displayValue s"
    using append_butlast_last_id [of "displayValue s"] by simp
  have e: "emitted (onBlur s) = emitted s @ [Blur]" and h: "\<not> hasError (onBlur s)"
    by (simp_all add: onBlur_def Let_def)
  have v: "parseDisplay (displayValue (onBlur s)) = numericValue (sanitize p raw)"
    if "displayValue s = formatFromCleaned (cleaned (sanitize p raw))"
    using that assms d blur_keeps_value [of p raw] parseDisplay_formatFromCleaned [of p raw]
    by (simp add: cleaned_sanitize)
  have n1: "Number (js ''42.'') = Finite 42"
    using Number_fraction [of "js ''42''" "[]"]
    by (simp add: js_def is_digit_def number_simps)
  have n2: "Number (js ''42'') = Finite 42"
    by (simp add: Number_digits js_def is_digit_def number_simps)
  have p1: "parseDisplay (js ''42.'') = Some (Finite 42)"
    using n1 by (simp add: parseDisplay_def js_def is_space_def)
  have p2: "parseDisplay (js ''42'') = Some (Finite 42)"
    using n2 by (simp add: parseDisplay_def js_def is_space_def)
  show ?thesis using d r e h v p1 p2 by simp
qed

text \<open>A field in the error state that shows \<^verbatim>\<open>42.\<close>, the display of the raw input \<^verbatim>\<open>42.\<close>.\<close>

theorem blur_strips_trailing_dot_witness:
  "displayValue (onBlur ((showing (js ''42.''))\<lparr>hasError := True\<rparr>)) = js ''42''
   \<and> emitted (onBlur ((showing (js ''42.''))\<lparr>hasError := True\<rparr>)) = [Blur]
   \<and> \<not> hasError (onBlur ((showing (js ''42.''))\<lparr>hasError := True\<rparr>))
   \<and> parseDisplay (displayValue (onBlur ((showing (js ''42.''))\<lparr>hasError := True\<rparr>)))
        = Some (Finite 42)
   \<and> numericValue (sanitize default_props (js ''42.'')) = Some (Finite 42)"
  using blur_strips_trailing_dot [of "(showing (js ''42.''))\<lparr>hasError := True\<rparr>" default_props
      "js ''42.''"] sanitize_42_dot
  by (simp add: showing_def endsWith_def eval_simps)

text \<open>
  C3. The claim speaks of every input event whose sanitized text violates the limit. The
  handler starts with \<^verbatim>\<open>if (props.disabled) return\<close>: on a disabled field it returns before it
  sanitizes anything, so the error flag is not set and the text of the input element is not
  put back. As amended: an input event on a field that is not disabled, whose sanitized text
  violates the limit, is rejected as a whole: the handler changes nothing but the error flag,
  which it sets, and the text of the input element, which it puts back to the display
  string; the display string is untouched and nothing is emitted.
\<close>

theorem limit_violation_rejects:
  assumes "\<not> disabled p"
    and "checkLimit p (cleaned (sanitize p (input_value s)))
           (numericValue (sanitize p (input_value s)))"
  shows "onInput p s = s\<lparr>hasError := True, input_value := displayValue s\<rparr>
    \<and> displayValue (onInput p s) = displayValue s
    \<and> input_value (onInput p s) = displayValue s
    \<and> hasError (onInput p s)
    \<and> emitted (onInput p s) = emitted s"
  using assms by (simp add: onInput_def Let_def)

text \<open>With \<^verbatim>\<open>max = 100\<close>, typing \<^verbatim>\<open>0\<close> after \<^verbatim>\<open>15\<close>.\<close>

theorem limit_violation_rejects_witness:
  "displayValue (onInput (default_props\<lparr>max_prop := Some (Finite 100)\<rparr>)
       (browser_edit (js ''150'') 3 (showing (js ''15'')))) = js ''15''
   \<and> input_value (onInput (default_props\<lparr>max_prop := Some (Finite 100)\<rparr>)
       (browser_edit (js ''150'') 3 (showing (js ''15'')))) = js ''15''
   \<and> hasError (onInput (default_props\<lparr>max_prop := Some (Finite 100)\<rparr>)
       (browser_edit (js ''150'') 3 (showing (js ''15''))))
   \<and> emitted (onInput (default_props\<lparr>max_prop := Some (Finite 100)\<rparr>)
       (browser_edit (js ''150'') 3 (showing (js ''15'')))) = []"
  using limit_violation_rejects [of "default_props\<lparr>max_prop := Some (Finite 100)\<rparr>"
      "browser_edit (js ''150'') 3 (showing (js ''15''))"] sanitize_150
  by (simp add: browser_edit_def showing_def checkLimit_def limitType_def default_props_def)

text \<open>
  The same edit on a disabled field, with \<^verbatim>\<open>max = 100\<close>: the sanitized text \<^verbatim>\<open>150\<close> violates
  the limit, yet the error flag stays down and the input element keeps the text \<^verbatim>\<open>150\<close>.
\<close>

theorem disabled_field_counterexample:
  "checkLimit (default_props\<lparr>disabled := True, max_prop := Some (Finite 100)\<rparr>)
       (cleaned (sanitize (default_props\<lparr>disabled := True, max_prop := Some (Finite 100)\<rparr>)
          (input_value (browser_edit (js ''150'') 3 (showing (js ''15''))))))
       (numericValue (sanitize (default_props\<lparr>disabled := True, max_prop := Some (Finite 100)\<rparr>)
          (input_value (browser_edit (js ''150'') 3 (showing (js ''15''))))))
   \<and> \<not> hasError (onInput (default_props\<lparr>disabled := True, max_prop := Some (Finite 100)\<rparr>)
         (browser_edit (js ''150'') 3 (showing (js ''15''))))
   \<and> input_value (onInput (default_props\<lparr>disabled := True, max_prop := Some (Finite 100)\<rparr>)
         (browser_edit (js ''150'') 3 (showing (js ''15'')))) = js ''150''
   \<and> displayValue (onInput (default_props\<lparr>disabled := True, max_prop := Some (Finite 100)\<rparr>)
         (browser_edit (js ''150'') 3 (showing (js ''15'')))) = js ''15''"
proof -
  have "sanitize (default_props\<lparr>disabled := True, max_prop := Some (Finite 100)\<rparr>) (js ''150'')
          = \<lparr>cleaned = js ''150'', numericValue = Some (Finite 150)\<rparr>"
    by (simp add: sanitize_def eval_simps Number_digits number_simps)
  then show ?thesis
    by (simp add: browser_edit_def showing_def checkLimit_def limitType_def default_props_def
        onInput_def)
qed

text \<open>
  C1. The claim has \<^verbatim>\<open>numericValue === Number(cleaned)\<close> also for an empty cleaned string and
  for a lone separator. There \<^verbatim>\<open>sanitize\<close> does not call \<^verbatim>\<open>Number\<close>: it returns \<^verbatim>\<open>null\<close>,
  while \<^verbatim>\<open>Number('')\<close> is \<open>0\<close> and \<^verbatim>\<open>Number('.')\<close> is \<^verbatim>\<open>NaN\<close>. As amended, for every edit,
  accepted or not: the numeric value is \<^verbatim>\<open>Number(cleaned)\<close> when the cleaned string is neither
  empty nor a lone \<^verbatim>\<open>.\<close> and that number is finite, and \<^verbatim>\<open>null\<close> otherwise; the only parse
  that is not finite is the overflow to \<^verbatim>\<open>Infinity\<close>.
\<close>

theorem numericValue_is_parse:
  "numericValue (sanitize p raw) =
     (if cleaned (sanitize p raw) = [] \<or> cleaned (sanitize p raw) = [DOT] then None
      else if isFinite (Number (cleaned (sanitize p raw)))
           then Some (Number (cleaned (sanitize p raw))) else None)
   \<and> (cleaned (sanitize p raw) \<noteq> [] \<and> cleaned (sanitize p raw) \<noteq> [DOT]
        \<and> isFinite (Number (cleaned (sanitize p raw))) \<longrightarrow>
       strict_equals (numericValue (sanitize p raw)) (Some (Number (cleaned (sanitize p raw)))))
   \<and> (cleaned (sanitize p raw) \<noteq> [] \<and> cleaned (sanitize p raw) \<noteq> [DOT]
        \<and> \<not> isFinite (Number (cleaned (sanitize p raw))) \<longrightarrow>
       Number (cleaned (sanitize p raw)) = PosInfinity)"
proof -
  have a: "numericValue (sanitize p raw) =
     (if clean p raw = [] \<or> clean p raw = [DOT] then None
      else if isFinite (Number (clean p raw)) then Some (Number (clean p raw)) else None)"
    by (simp add: sanitize_def Let_def)
  have b: "strict_equals (numericValue (sanitize p raw)) (Some (Number (clean p raw)))"
    if "clean p raw \<noteq> []" "clean p raw \<noteq> [DOT]" "isFinite (Number (clean p raw))"
    using that a by (cases "Number (clean p raw)") simp_all
  have c: "Number (clean p raw) = PosInfinity"
    if "clean p raw \<noteq> []" "clean p raw \<noteq> [DOT]" "\<not> isFinite (Number (clean p raw))"
    using that Number_clean_cases [of p raw] by auto
  show ?thesis using a b c by (simp add: cleaned_sanitize)
qed

text \<open>
  The raw input \<^verbatim>\<open>1234567.\<close>: the cleaned string is the same, and its value is the parse
  \<open>1234567\<close>.
\<close>

theorem numericValue_is_parse_witness:
  "numericValue (sanitize default_props (js ''1234567.'')) = Some (Finite 1234567)
   \<and> cleaned (sanitize default_props (js ''1234567.'')) = js ''1234567.''
   \<and> Number (js ''1234567.'') = Finite 1234567
   \<and> strict_equals (numericValue (sanitize default_props (js ''1234567.'')))
        (Some (Number (cleaned (sanitize default_props (js ''1234567.'')))))"
  using numericValue_is_parse [of default_props "js ''1234567.''"] sanitize_1234567_dot
    Number_1234567_dot
  by (simp add: js_def)

text \<open>
  With no limit configured every edit is accepted. The empty input gives \<^verbatim>\<open>null\<close>, not the
  \<open>0\<close> that \<^verbatim>\<open>Number('')\<close> is; the input \<^verbatim>\<open>.\<close> gives \<^verbatim>\<open>null\<close>, and \<^verbatim>\<open>Number('.')\<close> is
  \<^verbatim>\<open>NaN\<close>, which is not \<^verbatim>\<open>===\<close> to anything.
\<close>

theorem numericValue_empty_counterexample:
  "\<not> checkLimit default_props (cleaned (sanitize default_props []))
        (numericValue (sanitize default_props []))
   \<and> cleaned (sanitize default_props []) = []
   \<and> numericValue (sanitize default_props []) = None
   \<and> Number (cleaned (sanitize default_props [])) = Finite 0
   \<and> \<not> strict_equals (numericValue (sanitize default_props []))
         (Some (Number (cleaned (sanitize default_props []))))
   \<and> \<not> checkLimit default_props (cleaned (sanitize default_props [DOT]))
        (numericValue (sanitize default_props [DOT]))
   \<and> cleaned (sanitize default_props [DOT]) = [DOT]
   \<and> numericValue (sanitize default_props [DOT]) = None
   \<and> Number (cleaned (sanitize default_props [DOT])) = NaN
   \<and> \<not> strict_equals (numericValue (sanitize default_props [DOT]))
         (Some (Number (cleaned (sanitize default_props [DOT]))))"
  using sanitize_empty sanitize_dot Number_empty Number_dot
  by (simp add: checkLimit_def limitType_def default_props_def)

text \<open>
  C9. For every raw input, either type and every \<^verbatim>\<open>maxDecimals\<close>, the numeric value that
  \<^verbatim>\<open>sanitize\<close> returns is \<^verbatim>\<open>null\<close> or a finite number that is not negative: never a
  negative number, \<^verbatim>\<open>NaN\<close> or an infinity. A cleaned string whose parse is \<^verbatim>\<open>Infinity\<close>
  yields \<^verbatim>\<open>null\<close>.
\<close>

theorem numericValue_range:
  "(numericValue (sanitize p raw) = None
      \<or> (\<exists>r. numericValue (sanitize p raw) = Some (Finite r) \<and> 0 \<le> r))
   \<and> (Number (cleaned (sanitize p raw)) = PosInfinity \<longrightarrow> numericValue (sanitize p raw) = None)"
proof (cases "clean p raw = [] \<or> clean p raw = [DOT]")
  case True
  then show ?thesis by (auto simp: sanitize_def Let_def)
next
  case False
  then show ?thesis
    using Number_clean_cases [of p raw] by (auto simp: sanitize_def Let_def)
qed

text \<open>
  The input \<^verbatim>\<open>12.5\<close> has the value \<open>25 / 2\<close>; the digit \<^verbatim>\<open>2\<close> followed by 308 zeros
  parses to \<^verbatim>\<open>Infinity\<close> and has the value \<^verbatim>\<open>null\<close>.
\<close>

theorem numericValue_range_witness:
  "numericValue (sanitize default_props (js ''12.5'')) = Some (Finite (25 / 2))
   \<and> Number (cleaned (sanitize default_props (50 # replicate 308 48))) = PosInfinity
   \<and> numericValue (sanitize default_props (50 # replicate 308 48)) = None"
proof -
  have "list_all is_digit (50 # replicate 308 48)"
    by (simp add: list_all_iff is_digit_def)
  then have "cleaned (sanitize default_props (50 # replicate 308 48)) = 50 # replicate 308 48"
    by (simp add: cleaned_sanitize clean_digits)
  then show ?thesis
    using numericValue_range [of default_props "50 # replicate 308 48"] Number_overflow
      sanitize_12_5
    by simp
qed

text \<open>
  C10. The claim has \<^verbatim>\<open>sanitize\<close> idempotent for every raw input, whatever the type and
  \<^verbatim>\<open>maxDecimals\<close>. The fraction is cut by \<^verbatim>\<open>slice(0, maxDecimals)\<close>, which counts a negative
  end from the end of the string, and the component never checks the prop: with the decimal
  type and a negative \<^verbatim>\<open>maxDecimals\<close> each pass drops digits again. As amended: for the
  integer type, and for the decimal type with a \<^verbatim>\<open>maxDecimals\<close> that is not negative,
  sanitizing the cleaned string again, with the same type and the same \<^verbatim>\<open>maxDecimals\<close>,
  returns the same cleaned string and the same numeric value.
\<close>

theorem sanitize_idempotent:
  assumes "input_type p = Integer \<or> \<not> js_gt (Finite 0) (maxDecimals p)"
  shows "sanitize p (cleaned (sanitize p raw)) = sanitize p raw
    \<and> cleaned (sanitize p (cleaned (sanitize p raw))) = cleaned (sanitize p raw)
    \<and> numericValue (sanitize p (cleaned (sanitize p raw))) = numericValue (sanitize p raw)"
proof -
  have "sanitize p (clean p raw) = sanitize p raw"
    using clean_idem [OF assms] by (rule sanitize_cong)
  then show ?thesis by (simp add: cleaned_sanitize)
qed

text \<open>The raw input \<^verbatim>\<open>1,2.34,5x6\<close> is cleaned to \<^verbatim>\<open>1.23\<close>, which is cleaned to itself.\<close>

theorem sanitize_idempotent_witness:
  "cleaned (sanitize default_props (js ''1,2.34,5x6'')) = js ''1.23''
   \<and> sanitize default_props (js ''1.23'') = sanitize default_props (js ''1,2.34,5x6'')"
  using sanitize_idempotent [of default_props "js ''1,2.34,5x6''"] sanitize_mixed
  by (simp add: default_props_def)

text \<open>
  The decimal type with \<^verbatim>\<open>maxDecimals = -1\<close>: \<^verbatim>\<open>1.2345\<close> is cleaned to \<^verbatim>\<open>1.234\<close>, and that
  to \<^verbatim>\<open>1.23\<close>.
\<close>

theorem sanitize_idempotent_counterexample:
  "cleaned (sanitize (default_props\<lparr>maxDecimals := Finite (- 1)\<rparr>) (js ''1.2345'')) = js ''1.234''
   \<and> cleaned (sanitize (default_props\<lparr>maxDecimals := Finite (- 1)\<rparr>)
         (cleaned (sanitize (default_props\<lparr>maxDecimals := Finite (- 1)\<rparr>) (js ''1.2345''))))
       = js ''1.23''
   \<and> sanitize (default_props\<lparr>maxDecimals := Finite (- 1)\<rparr>)
         (cleaned (sanitize (default_props\<lparr>maxDecimals := Finite (- 1)\<rparr>) (js ''1.2345'')))
       \<noteq> sanitize (default_props\<lparr>maxDecimals := Finite (- 1)\<rparr>) (js ''1.2345'')"
proof -
  let ?p = "default_props\<lparr>maxDecimals := Finite (- 1)\<rparr>"
  have a: "clean ?p (js ''1.2345'') = js ''1.234''"
    by (simp add: eval_simps ceiling_rat_minus_one)
  have b: "clean ?p (js ''1.234'') = js ''1.23''"
    by (simp add: eval_simps ceiling_rat_minus_one)
  have c: "js ''1.23'' \<noteq> js ''1.234''"
    by (simp add: js_def)
  have "cleaned (sanitize ?p (clean ?p (js ''1.2345''))) \<noteq> cleaned (sanitize ?p (js ''1.2345''))"
    using a b c by (simp add: cleaned_sanitize)
  then have "sanitize ?p (clean ?p (js ''1.2345'')) \<noteq> sanitize ?p (js ''1.2345'')"
    by auto
  then show ?thesis using a b by (simp add: cleaned_sanitize)
qed

text \<open>
  C5. The claim bounds the fractional part by \<^verbatim>\<open>maxDecimals\<close> for every configuration, and
  has any second \<^verbatim>\<open>.\<close> leave the result unchanged. The fraction is cut by
  \<^verbatim>\<open>slice(0, maxDecimals)\<close>, which counts a negative end from the end of the string, and the
  component never checks the prop; and the \<^verbatim>\<open>.\<close> that is kept is the first one, so a \<^verbatim>\<open>.\<close>
  put before it takes its place. As amended, for the decimal type and every raw input: the
  cleaned string is the normalized string when that has no \<^verbatim>\<open>.\<close>; otherwise it is what
  precedes the first \<^verbatim>\<open>.\<close>, that \<^verbatim>\<open>.\<close>, and the rest without its \<^verbatim>\<open>.\<close> characters, cut by
  \<^verbatim>\<open>slice(0, maxDecimals)\<close>: to its first \<open>m\<close> characters when \<^verbatim>\<open>maxDecimals\<close> is the count
  \<open>m\<close>. Consequently the cleaned string has at most one \<^verbatim>\<open>.\<close>; when \<^verbatim>\<open>maxDecimals\<close> is not
  negative its fractional part consists of digits, no more of them than \<^verbatim>\<open>maxDecimals\<close>; and
  a \<^verbatim>\<open>.\<close> or \<^verbatim>\<open>,\<close> added to the raw input anywhere after a first separator changes nothing
  in the result.
\<close>

theorem decimal_sanitize:
  assumes "input_type p = Decimal"
  shows "cleaned (sanitize p raw) =
      (case indexOf (normalized raw) DOT of
         None \<Rightarrow> normalized raw
       | Some i \<Rightarrow> take i (normalized raw) @ [DOT]
                    @ slice_to (filter (\<lambda>c. c \<noteq> DOT) (drop (i + 1) (normalized raw)))
                        (maxDecimals p))
    \<and> (\<forall>m i. maxDecimals p = Finite (of_nat m) \<and> indexOf (normalized raw) DOT = Some i \<longrightarrow>
          cleaned (sanitize p raw) =
            take i (normalized raw) @ [DOT]
              @ take m (filter (\<lambda>c. c \<noteq> DOT) (drop (i + 1) (normalized raw))))
    \<and> length (filter (\<lambda>c. c = DOT) (cleaned (sanitize p raw))) \<le> 1
    \<and> (\<not> js_gt (Finite 0) (maxDecimals p) \<longrightarrow>
         (\<forall>i. indexOf (cleaned (sanitize p raw)) DOT = Some i \<longrightarrow>
            list_all is_digit (drop (i + 1) (cleaned (sanitize p raw)))
            \<and> \<not> js_gt (Finite (of_nat (length (drop (i + 1) (cleaned (sanitize p raw))))))
                  (maxDecimals p)))
    \<and> (DOT \<in> set (normalized xs) \<and> (d = DOT \<or> d = COMMA) \<longrightarrow>
         sanitize p (xs @ d # ys) = sanitize p (xs @ ys))"
proof -
  note c = clean_decimal [OF assms, of raw]
  have b: "list_all is_digit (drop (i + 1) (clean p raw))
        \<and> \<not> js_gt (Finite (of_nat (length (drop (i + 1) (clean p raw))))) (maxDecimals p)"
    if md: "\<not> js_gt (Finite 0) (maxDecimals p)" and i: "indexOf (clean p raw) DOT = Some i" for i
  proof -
    from clean_decimal_shape [OF assms, of raw] show ?thesis
    proof
      assume "list_all is_digit (clean p raw)"
      then have "indexOf (clean p raw) DOT = None"
        using digits_no_dot by (simp add: indexOf_None)
      then show ?thesis using i by simp
    next
      assume "\<exists>ip a. clean p raw = ip @ DOT # slice_to a (maxDecimals p)
                  \<and> list_all is_digit ip \<and> list_all is_digit a"
      then obtain ip a where s: "clean p raw = ip @ DOT # slice_to a (maxDecimals p)"
        and ip: "list_all is_digit ip" and a: "list_all is_digit a"
        by blast
      have "indexOf (clean p raw) DOT = Some (length ip)"
        using digits_no_dot [OF ip] by (simp add: s indexOf_append_notin)
      then have "i = length ip" using i by simp
      then have "drop (i + 1) (clean p raw) = slice_to a (maxDecimals p)"
        by (simp add: s)
      then show ?thesis
        using slice_to_length [OF md, of a] digits_slice_to [OF a] by simp
    qed
  qed
  have e: "sanitize p (xs @ d # ys) = sanitize p (xs @ ys)"
    if "DOT \<in> set (normalized xs)" and "d = DOT \<or> d = COMMA"
    using that by (intro sanitize_cong clean_second_dot)
  show ?thesis
    using c b e clean_dot_count [of p raw]
    by (simp add: cleaned_sanitize slice_to_nat del: of_nat_le_iff)
qed

text \<open>
  With the default two decimals: \<^verbatim>\<open>1,2.34,5x6\<close> normalizes to \<^verbatim>\<open>1.2.34.56\<close> and is cleaned to
  \<^verbatim>\<open>1.23\<close>; a second \<^verbatim>\<open>.\<close> typed into \<^verbatim>\<open>12.34\<close> leaves the result as it is.
\<close>

theorem decimal_sanitize_witness:
  "cleaned (sanitize default_props (js ''1,2.34,5x6'')) = js ''1.23''
   \<and> normalized (js ''1,2.34,5x6'') = js ''1.2.34.56''
   \<and> cleaned (sanitize default_props (js ''1,2.34,5x6''))
       = take 1 (js ''1.2.34.56'') @ [DOT] @ take 2 (filter (\<lambda>c. c \<noteq> DOT) (drop 2 (js ''1.2.34.56'')))
   \<and> length (filter (\<lambda>c. c = DOT) (cleaned (sanitize default_props (js ''1,2.34,5x6'')))) \<le> 1
   \<and> \<not> js_gt (Finite (of_nat (length (drop 2 (cleaned (sanitize default_props
                                                          (js ''1,2.34,5x6'')))))))
         (maxDecimals default_props)
   \<and> sanitize default_props (js ''12.3.4'') = sanitize default_props (js ''12.34'')
   \<and> cleaned (sanitize default_props (js ''12.3.4'')) = js ''12.34''"
proof -
  let ?raw = "js ''1,2.34,5x6''"
  have ty: "input_type default_props = Decimal"
    by (simp add: default_props_def)
  note t = decimal_sanitize [where p = default_props and raw = ?raw
      and xs = "js ''12.3''" and d = DOT and ys = "js ''4''", OF ty]
  have c: "cleaned (sanitize default_props ?raw) = js ''1.23''"
    by (simp add: eval_simps)
  have n: "normalized ?raw = js ''1.2.34.56''"
    by (simp add: eval_simps)
  have md: "maxDecimals default_props = Finite (of_nat 2)"
    by (simp add: default_props_def)
  have ix: "indexOf (normalized ?raw) DOT = Some 1"
    by (simp add: eval_simps)
  have "cleaned (sanitize default_props ?raw)
          = take 1 (normalized ?raw) @ [DOT]
              @ take 2 (filter (\<lambda>c. c \<noteq> DOT) (drop (1 + 1) (normalized ?raw)))"
    using t md ix by blast
  then have m: "cleaned (sanitize default_props ?raw)
          = take 1 (js ''1.2.34.56'') @ [DOT]
              @ take 2 (filter (\<lambda>c. c \<noteq> DOT) (drop 2 (js ''1.2.34.56'')))"
    unfolding n one_add_one .
  have k: "length (filter (\<lambda>c. c = DOT) (cleaned (sanitize default_props ?raw))) \<le> 1"
    using t by blast
  have nn: "\<not> js_gt (Finite 0) (maxDecimals default_props)"
    by (simp add: default_props_def)
  have ic: "indexOf (cleaned (sanitize default_props ?raw)) DOT = Some 1"
    by (simp add: eval_simps)
  have "\<not> js_gt (Finite (of_nat (length (drop (1 + 1) (cleaned (sanitize default_props ?raw))))))
          (maxDecimals default_props)"
    using t nn ic by blast
  then have b: "\<not> js_gt (Finite (of_nat (length (drop 2 (cleaned (sanitize default_props ?raw))))))
          (maxDecimals default_props)"
    unfolding one_add_one .
  have "DOT \<in> set (normalized (js ''12.3''))"
    by (simp add: eval_simps)
  then have "sanitize default_props (js ''12.3'' @ DOT # js ''4'')
               = sanitize default_props (js ''12.3'' @ js ''4'')"
    using t by blast
  then have e: "sanitize default_props (js ''12.3.4'') = sanitize default_props (js ''12.34'')"
    by (simp add: js_def)
  have f: "cleaned (sanitize default_props (js ''12.3.4'')) = js ''12.34''"
    using clean_second_dot_example by (simp add: cleaned_sanitize)
  show ?thesis using c n m k b e f by blast
qed

text \<open>
  With \<^verbatim>\<open>maxDecimals = -1\<close> the input \<^verbatim>\<open>1.2345\<close> is cleaned to \<^verbatim>\<open>1.234\<close>, whose three
  fractional digits are more than \<open>-1\<close>. With the default two decimals, \<^verbatim>\<open>12.34\<close> is cleaned
  to itself, and with a second \<^verbatim>\<open>.\<close> put before the first, \<^verbatim>\<open>1.2.34\<close>, to \<^verbatim>\<open>1.23\<close>.
\<close>

theorem decimal_sanitize_counterexample:
  "input_type (default_props\<lparr>maxDecimals := Finite (- 1)\<rparr>) = Decimal
   \<and> cleaned (sanitize (default_props\<lparr>maxDecimals := Finite (- 1)\<rparr>) (js ''1.2345'')) = js ''1.234''
   \<and> indexOf (cleaned (sanitize (default_props\<lparr>maxDecimals := Finite (- 1)\<rparr>) (js ''1.2345'')))
         DOT = Some 1
   \<and> js_gt (Finite (of_nat (length (drop 2
          (cleaned (sanitize (default_props\<lparr>maxDecimals := Finite (- 1)\<rparr>) (js ''1.2345'')))))))
        (maxDecimals (default_props\<lparr>maxDecimals := Finite (- 1)\<rparr>))
   \<and> input_type default_props = Decimal
   \<and> cleaned (sanitize default_props (js ''12.34'')) = js ''12.34''
   \<and> cleaned (sanitize default_props (js ''1.2.34'')) = js ''1.23''
   \<and> cleaned (sanitize default_props (js ''1.2.34''))
       \<noteq> cleaned (sanitize default_props (js ''12.34''))"
  by (simp add: eval_simps ceiling_rat_minus_one)

end
